theory Spec2Isabelle
  imports Main
begin

section \<open>Integer arithmetic of the target\<close>

text \<open>
  The library is compiled for the megaAVR family: \<^verbatim>\<open>int\<close> has 16 bits, \<^verbatim>\<open>long\<close> has 32,
  \<^verbatim>\<open>uint8_t\<close> and \<^verbatim>\<open>int8_t\<close> have 8. Values are kept as mathematical integers and every
  conversion into a 16-bit or 8-bit type that the source performs is written out with the
  functions below. Arithmetic carried out in \<^verbatim>\<open>long\<close> (the \<^verbatim>\<open>map\<close> function and the two
  tick conversion macros, whose clock operand is a \<^verbatim>\<open>long\<close>) is left unwrapped.
\<close>

definition to_int16 :: "int \<Rightarrow> int" where
  "to_int16 x = (x + 32768) mod 65536 - 32768"

definition to_uint16 :: "int \<Rightarrow> int" where
  "to_uint16 x = x mod 65536"

definition to_int8 :: "int \<Rightarrow> int" where
  "to_int8 x = (x + 128) mod 256 - 128"

definition to_uint8 :: "nat \<Rightarrow> nat" where
  "to_uint8 x = x mod 256"

text \<open>The division operator of C rounds towards zero; \<open>div\<close> of HOL rounds down.\<close>

definition c_div :: "int \<Rightarrow> int \<Rightarrow> int" where
  "c_div a b = (if (a < 0) = (b < 0) then \<bar>a\<bar> div \<bar>b\<bar> else - (\<bar>a\<bar> div \<bar>b\<bar>))"

section \<open>Constants and platform parameters\<close>

text \<open>
  The header \<^verbatim>\<open>VarSpeedServo.h\<close> and the board's core are not part of the sources at hand.
  What they fix and the source file does not is a parameter of the model: the clock rate
  behind \<^verbatim>\<open>clockCyclesPerMicrosecond()\<close>, the table capacities, the two sentinels and the
  default pulse width.
\<close>

record platform =
  clockCyclesPerMicrosecond :: int
  SERVOS_PER_TIMER :: nat
  Nbr_16timers :: nat
  MAX_SERVOS :: nat
  INVALID_SERVO :: nat
  CURRENT_SEQUENCE_STOP :: nat
  DEFAULT_PULSE_WIDTH :: int

text \<open>
  Modelled from the spec: \<^verbatim>\<open>MIN_PULSE_WIDTH\<close> and \<^verbatim>\<open>MAX_PULSE_WIDTH\<close> are defined in the
  absent header; the specification's compatibility contract gives the default minimum pulse
  width as 544 microseconds and the default maximum as 2400.
\<close>

definition MIN_PULSE_WIDTH :: int where
  "MIN_PULSE_WIDTH = 544"

definition MAX_PULSE_WIDTH :: int where
  "MAX_PULSE_WIDTH = 2400"

definition TRIM_DURATION :: int where
  "TRIM_DURATION = 5"

definition REFRESH_INTERVAL :: int where
  "REFRESH_INTERVAL = 16000"

text \<open>
  \<^verbatim>\<open>#define usToTicks(_us) ((clockCyclesPerMicrosecond() / 16 * _us) / 4)\<close> and
  \<^verbatim>\<open>#define ticksToUs(_ticks) (((unsigned) _ticks * 16) / (clockCyclesPerMicrosecond() / 4))\<close>.
  The cast in the second macro applies to the tick value alone, so the product is taken
  in 16-bit unsigned arithmetic before the quotient is formed in \<^verbatim>\<open>long\<close>.
\<close>

definition usToTicks :: "platform \<Rightarrow> int \<Rightarrow> int" where
  "usToTicks p us = c_div (c_div (clockCyclesPerMicrosecond p) 16 * us) 4"

definition ticksToUs :: "platform \<Rightarrow> int \<Rightarrow> int" where
  "ticksToUs p t = c_div (to_uint16 (to_uint16 t * 16)) (c_div (clockCyclesPerMicrosecond p) 4)"

text \<open>The core's \<^verbatim>\<open>map\<close> (on \<^verbatim>\<open>long\<close>) and its \<^verbatim>\<open>constrain\<close> macro.\<close>

definition map_c :: "int \<Rightarrow> int \<Rightarrow> int \<Rightarrow> int \<Rightarrow> int \<Rightarrow> int" where
  "map_c x in_min in_max out_min out_max =
     c_div ((x - in_min) * (out_max - out_min)) (in_max - in_min) + out_min"

definition constrain :: "int \<Rightarrow> int \<Rightarrow> int \<Rightarrow> int" where
  "constrain amt low high = (if amt < low then low else if amt > high then high else amt)"

section \<open>Servo table, timer and servo objects\<close>

text \<open>
  One entry of the static table \<^verbatim>\<open>servos\<close>. The source's field \<^verbatim>\<open>value\<close> is called
  \<open>svalue\<close> here. The declaration of the structure is in the absent header, so a field holds
  the integer the source assigns to it.
\<close>

record servo_t =
  Pin_nbr :: int
  Pin_isActive :: bool
  ticks :: int
  svalue :: int
  target :: int
  speed :: nat

text \<open>
  What the code does to the outside world is kept as an ordered log: pin operations of the
  core, and the writes to the control registers of the timer, whose bit masks are recorded
  by name. The compare register \<^verbatim>\<open>CCMP\<close> is read back by the interrupt handler and is
  therefore a field of the state.
\<close>

datatype pin_level = LOW | HIGH

datatype tcb_reg = CTRLA | CTRLB | INTCTRL | INTFLAGS

datatype tcb_bit = TCB_CLKSEL_CLKTCA_gc | TCB_CNTMODE_INT_gc | TCB_CAPTEI_bm
  | TCB_ENABLE_bm | TCB_CAPT_bm

datatype hw_call = PinMode_OUTPUT int | DigitalWrite int pin_level
  | RegAssign tcb_reg "tcb_bit list" | RegOr tcb_reg "tcb_bit list"

record state =
  servos :: "servo_t list"
  ServoCount :: nat
  currentServoIndex :: "int list"
  CCMP :: int
  calls :: "hw_call list"

text \<open>
  The members of one \<^verbatim>\<open>VarSpeedServo\<close> object. \<open>min_trim\<close> and \<open>max_trim\<close> are the source's
  \<^verbatim>\<open>min\<close> and \<^verbatim>\<open>max\<close>; \<open>curSequence\<close> is the address the pointer holds.
\<close>

record VarSpeedServo =
  servoIndex :: nat
  min_trim :: int
  max_trim :: int
  curSequence :: nat
  curSeqPosition :: nat

text \<open>
  An access to \<^verbatim>\<open>servos[i]\<close> or \<^verbatim>\<open>currentServoIndex[t]\<close> outside the array is undefined
  behaviour in C. The model stops there with a fault that names the index.
\<close>

datatype fault = ServoOutOfBounds int | TimerOutOfBounds nat

definition servo_at :: "state \<Rightarrow> int \<Rightarrow> fault + servo_t" where
  "servo_at st i =
     (if 0 \<le> i \<and> i < int (length (servos st)) then Inr (servos st ! nat i)
      else Inl (ServoOutOfBounds i))"

definition servo_put :: "state \<Rightarrow> int \<Rightarrow> servo_t \<Rightarrow> state" where
  "servo_put st i s = st\<lparr>servos := (servos st)[nat i := s]\<rparr>"

definition SERVO_MIN :: "VarSpeedServo \<Rightarrow> int" where
  "SERVO_MIN this = MIN_PULSE_WIDTH - min_trim this * 4"

definition SERVO_MAX :: "VarSpeedServo \<Rightarrow> int" where
  "SERVO_MAX this = MAX_PULSE_WIDTH - max_trim this * 4"

section \<open>The write and read entry points\<close>

definition writeMicroseconds :: "platform \<Rightarrow> state \<Rightarrow> VarSpeedServo \<Rightarrow> int \<Rightarrow> fault + state" where
  "writeMicroseconds p st this val =
     (let channel = int (to_uint8 (servoIndex this)) in
      case servo_at st channel of
        Inl e \<Rightarrow> Inl e
      | Inr s0 \<Rightarrow>
          (let st1 = servo_put st channel (s0\<lparr>svalue := val\<rparr>) in
           if 0 \<le> channel \<and> channel < int (MAX_SERVOS p) then
             (let v1 = (if val < SERVO_MIN this then SERVO_MIN this
                        else if val > SERVO_MAX this then SERVO_MAX this else val);
                  v2 = to_int16 (v1 - TRIM_DURATION);
                  v3 = to_int16 (usToTicks p v2)
              in case servo_at st1 channel of
                   Inl e \<Rightarrow> Inl e
                 | Inr s1 \<Rightarrow> Inr (servo_put st1 channel (s1\<lparr>ticks := v3\<rparr>)))
           else Inr st1))"

text \<open>
  \<open>write_value\<close> is \<^verbatim>\<open>write(int value)\<close> and \<open>write_speed\<close> is the overload
  \<^verbatim>\<open>write(int value, uint8_t speed)\<close>.
\<close>

definition write_value :: "platform \<Rightarrow> state \<Rightarrow> VarSpeedServo \<Rightarrow> int \<Rightarrow> fault + state" where
  "write_value p st this val =
     (if val < MIN_PULSE_WIDTH then
        (let v0 = (if val < 0 then 0 else if val > 180 then 180 else val)
         in writeMicroseconds p st this
              (to_int16 (map_c v0 0 180 (SERVO_MIN this) (SERVO_MAX this))))
      else writeMicroseconds p st this val)"

definition write_speed :: "platform \<Rightarrow> state \<Rightarrow> VarSpeedServo \<Rightarrow> int \<Rightarrow> nat \<Rightarrow> fault + state" where
  "write_speed p st this val spd =
     (let channel = int (to_uint8 (servoIndex this)) in
      case servo_at st channel of
        Inl e \<Rightarrow> Inl e
      | Inr s0 \<Rightarrow>
          (let st1 = servo_put st channel (s0\<lparr>svalue := val\<rparr>) in
           if spd \<noteq> 0 then
             (let v0 = (if val < MIN_PULSE_WIDTH then
                          to_int16 (map_c (constrain val 0 180) 0 180
                                      (SERVO_MIN this) (SERVO_MAX this))
                        else val)
              in if 0 \<le> channel \<and> channel < int (MAX_SERVOS p) then
                   (let v1 = constrain v0 (SERVO_MIN this) (SERVO_MAX this);
                        v2 = to_int16 (v1 - TRIM_DURATION);
                        v3 = to_int16 (usToTicks p v2)
                    in case servo_at st1 channel of
                         Inl e \<Rightarrow> Inl e
                       | Inr s1 \<Rightarrow> Inr (servo_put st1 channel (s1\<lparr>target := v3, speed := spd\<rparr>)))
                 else Inr st1)
           else write_value p st1 this val))"

definition readMicroseconds :: "platform \<Rightarrow> state \<Rightarrow> VarSpeedServo \<Rightarrow> fault + int" where
  "readMicroseconds p st this =
     (if servoIndex this \<noteq> INVALID_SERVO p then
        (case servo_at st (int (servoIndex this)) of
           Inl e \<Rightarrow> Inl e
         | Inr s \<Rightarrow> Inr (to_int16 (to_uint16 (ticksToUs p (ticks s) + TRIM_DURATION))))
      else Inr (to_int16 (to_uint16 0)))"

definition read :: "platform \<Rightarrow> state \<Rightarrow> VarSpeedServo \<Rightarrow> fault + int" where
  "read p st this =
     (case readMicroseconds p st this of
        Inl e \<Rightarrow> Inl e
      | Inr us \<Rightarrow> Inr (to_int16 (map_c (to_int16 (us + 1)) (SERVO_MIN this) (SERVO_MAX this) 0 180)))"


definition isMoving :: "platform \<Rightarrow> state \<Rightarrow> VarSpeedServo \<Rightarrow> fault + bool" where
  "isMoving p st this =
     (let channel = int (to_uint8 (servoIndex this)) in
      case servo_at st channel of
        Inl e \<Rightarrow> Inl e
      | Inr s \<Rightarrow>
          (let val = to_int16 (svalue s) in
           if val < MIN_PULSE_WIDTH then
             (case read p st this of Inl e \<Rightarrow> Inl e | Inr r \<Rightarrow> Inr (r \<noteq> val))
           else
             (case readMicroseconds p st this of Inl e \<Rightarrow> Inl e | Inr us \<Rightarrow> Inr (us \<noteq> val))))"

section \<open>The interrupt handler\<close>

definition SERVO_INDEX :: "platform \<Rightarrow> int \<Rightarrow> int \<Rightarrow> int" where
  "SERVO_INDEX p timer channel = timer * int (SERVOS_PER_TIMER p) + channel"

definition digitalWrite :: "state \<Rightarrow> int \<Rightarrow> pin_level \<Rightarrow> state" where
  "digitalWrite st pin lvl = st\<lparr>calls := calls st @ [DigitalWrite pin lvl]\<rparr>"

text \<open>
  \<^verbatim>\<open>ServoHandler\<close> in three parts. \<open>handler_pulse_end\<close> is its first conditional, on the
  index \<open>idx\<close> stored for the timer; \<open>handler_next\<close> is the conditional after the increment,
  on the incremented index; \<open>ServoHandler\<close> joins them, increments the stored \<^verbatim>\<open>int8_t\<close>
  in between and clears the interrupt flag at the end.
\<close>

definition handler_pulse_end :: "platform \<Rightarrow> state \<Rightarrow> nat \<Rightarrow> int \<Rightarrow> fault + state" where
  "handler_pulse_end p st timer idx =
     (if idx < 0 then Inr (st\<lparr>CCMP := 0\<rparr>)
      else if SERVO_INDEX p (int timer) idx < int (ServoCount st) then
        (case servo_at st (SERVO_INDEX p (int timer) idx) of
           Inl e \<Rightarrow> Inl e
         | Inr s \<Rightarrow>
             if Pin_isActive s = True then Inr (digitalWrite st (Pin_nbr s) LOW) else Inr st)
      else Inr st)"

definition handler_next :: "platform \<Rightarrow> state \<Rightarrow> nat \<Rightarrow> int \<Rightarrow> fault + state" where
  "handler_next p st timer idx =
     (if SERVO_INDEX p (int timer) idx < int (ServoCount st) \<and> idx < int (SERVOS_PER_TIMER p) then
        (case servo_at st (SERVO_INDEX p (int timer) idx) of
           Inl e \<Rightarrow> Inl e
         | Inr s \<Rightarrow>
             (let st1 = (if Pin_isActive s = True then digitalWrite st (Pin_nbr s) HIGH else st);
                  tcCounterValue = 0
              in Inr (st1\<lparr>CCMP := to_uint16 (tcCounterValue + ticks s)\<rparr>)))
      else
        (let tcCounterValue = CCMP st;
             st1 = (if tcCounterValue + 4 < usToTicks p REFRESH_INTERVAL
                    then st\<lparr>CCMP := to_uint16 (usToTicks p REFRESH_INTERVAL)\<rparr>
                    else st\<lparr>CCMP := to_uint16 (tcCounterValue + 4)\<rparr>)
         in Inr (st1\<lparr>currentServoIndex := (currentServoIndex st1)[timer := - 1]\<rparr>)))"

definition ServoHandler :: "platform \<Rightarrow> state \<Rightarrow> nat \<Rightarrow> fault + state" where
  "ServoHandler p st timer =
     (if timer < length (currentServoIndex st) then
        (case handler_pulse_end p st timer (currentServoIndex st ! timer) of
           Inl e \<Rightarrow> Inl e
         | Inr st1 \<Rightarrow>
             (let st2 = st1\<lparr>currentServoIndex :=
                          (currentServoIndex st1)[timer := to_int8 (currentServoIndex st1 ! timer + 1)]\<rparr>
              in case handler_next p st2 timer (currentServoIndex st2 ! timer) of
                   Inl e \<Rightarrow> Inl e
                 | Inr st3 \<Rightarrow> Inr (st3\<lparr>calls := calls st3 @ [RegAssign INTFLAGS [TCB_CAPT_bm]]\<rparr>)))
      else Inl (TimerOutOfBounds timer))"

text \<open>A series of interrupts, given by the timer each one is raised for.\<close>

fun run_handler :: "platform \<Rightarrow> state \<Rightarrow> nat list \<Rightarrow> fault + state" where
  "run_handler p st [] = Inr st"
| "run_handler p st (timer # rest) =
     (case ServoHandler p st timer of Inl e \<Rightarrow> Inl e | Inr st1 \<Rightarrow> run_handler p st1 rest)"

text \<open>
  \<^verbatim>\<open>initISR\<close> puts the timer in its periodic interrupt mode: the counter restarts at 0 with
  each interrupt and the next interrupt comes when it reaches the compare register, which is
  why the handler arms a channel with \<open>0 + ticks\<close>. The value a call leaves in \<^verbatim>\<open>CCMP\<close> is thus
  the number of ticks until the next call. \<open>run_periods\<close> makes \<open>k\<close> calls in a row for one
  timer and lists these values; the ticks elapsed in a cycle when a call begins are the sum of
  the values listed since the call that started the cycle.
\<close>

fun run_periods :: "platform \<Rightarrow> state \<Rightarrow> nat \<Rightarrow> nat \<Rightarrow> fault + (state \<times> int list)" where
  "run_periods p st timer 0 = Inr (st, [])"
| "run_periods p st timer (Suc k) =
     (case ServoHandler p st timer of
        Inl e \<Rightarrow> Inl e
      | Inr st1 \<Rightarrow>
          (case run_periods p st1 timer k of
             Inl e \<Rightarrow> Inl e
           | Inr (st2, periods) \<Rightarrow> Inr (st2, CCMP st1 # periods)))"

section \<open>Timer set-up, construction, attach and detach\<close>

text \<open>
  \<^verbatim>\<open>initISR\<close> and \<^verbatim>\<open>finISR\<close> write to the one timer the macro \<^verbatim>\<open>_timer\<close> names, whatever
  their argument is.
\<close>

definition initISR :: "state \<Rightarrow> nat \<Rightarrow> state" where
  "initISR st timer =
     st\<lparr>calls := calls st @
        [RegAssign CTRLA [TCB_CLKSEL_CLKTCA_gc], RegAssign CTRLB [TCB_CNTMODE_INT_gc],
         RegAssign INTCTRL [TCB_CAPTEI_bm], RegOr CTRLA [TCB_ENABLE_bm]]\<rparr>"

definition finISR :: "state \<Rightarrow> nat \<Rightarrow> state" where
  "finISR st timer = st\<lparr>calls := calls st @ [RegAssign INTCTRL []]\<rparr>"

text \<open>
  The loop of \<^verbatim>\<open>isTimerActive\<close> over the channels \<open>0 .. SERVOS_PER_TIMER - 1\<close>, stopping at
  the first active entry.
\<close>

fun active_among :: "state \<Rightarrow> int list \<Rightarrow> fault + bool" where
  "active_among st [] = Inr False"
| "active_among st (i # rest) =
     (case servo_at st i of
        Inl e \<Rightarrow> Inl e
      | Inr s \<Rightarrow> if Pin_isActive s = True then Inr True else active_among st rest)"

definition isTimerActive :: "platform \<Rightarrow> state \<Rightarrow> nat \<Rightarrow> fault + bool" where
  "isTimerActive p st timer =
     active_among st (map (\<lambda>channel. SERVO_INDEX p (int timer) (int channel))
                        [0 ..< SERVOS_PER_TIMER p])"

text \<open>
  The constructor. \<open>this\<close> is the object's storage before the call: the members the
  constructor does not assign keep what it holds. \<open>initSeq\<close> is the address of the global
  array of that name.
\<close>

definition VarSpeedServo_new ::
    "platform \<Rightarrow> state \<Rightarrow> VarSpeedServo \<Rightarrow> nat \<Rightarrow> fault + (state \<times> VarSpeedServo)" where
  "VarSpeedServo_new p st this initSeq =
     (if ServoCount st < MAX_SERVOS p then
        (let idx = ServoCount st;
             st1 = st\<lparr>ServoCount := to_uint8 (ServoCount st + 1)\<rparr>
         in case servo_at st1 (int idx) of
              Inl e \<Rightarrow> Inl e
            | Inr s \<Rightarrow>
                Inr (servo_put st1 (int idx) (s\<lparr>ticks := usToTicks p (DEFAULT_PULSE_WIDTH p)\<rparr>),
                     this\<lparr>servoIndex := idx, curSeqPosition := 0, curSequence := initSeq\<rparr>))
      else Inr (st, this\<lparr>servoIndex := INVALID_SERVO p\<rparr>))"

definition attach ::
    "platform \<Rightarrow> state \<Rightarrow> VarSpeedServo \<Rightarrow> int \<Rightarrow> int \<Rightarrow> int \<Rightarrow> fault + (state \<times> VarSpeedServo \<times> nat)" where
  "attach p st this pin mn mx =
     (if servoIndex this < MAX_SERVOS p then
        (let st1 = st\<lparr>calls := calls st @ [PinMode_OUTPUT pin]\<rparr>;
             idx = int (servoIndex this)
         in case servo_at st1 idx of
              Inl e \<Rightarrow> Inl e
            | Inr s \<Rightarrow>
                (let st2 = servo_put st1 idx (s\<lparr>Pin_nbr := pin\<rparr>);
                     this1 = this\<lparr>min_trim := to_int8 (c_div (to_int16 (MIN_PULSE_WIDTH - mn)) 4),
                                  max_trim := to_int8 (c_div (to_int16 (MAX_PULSE_WIDTH - mx)) 4)\<rparr>;
                     timer = servoIndex this div SERVOS_PER_TIMER p
                 in case isTimerActive p st2 timer of
                      Inl e \<Rightarrow> Inl e
                    | Inr active \<Rightarrow>
                        (let st3 = (if active = False then initISR st2 timer else st2)
                         in case servo_at st3 idx of
                              Inl e \<Rightarrow> Inl e
                            | Inr s3 \<Rightarrow>
                                Inr (servo_put st3 idx (s3\<lparr>Pin_isActive := True\<rparr>),
                                     this1, servoIndex this))))
      else Inr (st, this, servoIndex this))"

definition detach :: "platform \<Rightarrow> state \<Rightarrow> VarSpeedServo \<Rightarrow> fault + state" where
  "detach p st this =
     (let idx = int (servoIndex this) in
      case servo_at st idx of
        Inl e \<Rightarrow> Inl e
      | Inr s \<Rightarrow>
          (let st1 = servo_put st idx (s\<lparr>Pin_isActive := False\<rparr>);
               timer = servoIndex this div SERVOS_PER_TIMER p
           in case isTimerActive p st1 timer of
                Inl e \<Rightarrow> Inl e
              | Inr active \<Rightarrow> Inr (if active = False then finISR st1 timer else st1)))"

section \<open>Sequence playback\<close>

text \<open>
  A waypoint, and the argument \<^verbatim>\<open>servoSequencePoint sequenceIn[]\<close>: a pointer, which carries
  no length. \<open>seq_addr\<close> is the address compared with \<^verbatim>\<open>curSequence\<close>; \<open>seq_cell i\<close> is what
  \<^verbatim>\<open>sequenceIn[i]\<close> yields. The fields of a waypoint are bytes.
\<close>

record servoSequencePoint =
  position :: nat
  wp_speed :: nat

record sequence =
  seq_addr :: nat
  seq_cell :: "nat \<Rightarrow> servoSequencePoint"

text \<open>
  \<^verbatim>\<open>sequencePlay\<close> returns the byte the source returns, together with the new table, the
  new members of the object and, last, the indices at which it read \<^verbatim>\<open>sequenceIn\<close>, in the
  order of the reads.
\<close>

definition sequencePlay ::
    "platform \<Rightarrow> state \<Rightarrow> VarSpeedServo \<Rightarrow> sequence \<Rightarrow> nat \<Rightarrow> bool \<Rightarrow> nat
       \<Rightarrow> fault + (state \<times> VarSpeedServo \<times> nat \<times> nat list)" where
  "sequencePlay p st this sequenceIn numPositions loop startPos =
     (let newSeq = (curSequence this \<noteq> seq_addr sequenceIn);
          this1 = (if newSeq then this\<lparr>curSequence := seq_addr sequenceIn, curSeqPosition := startPos\<rparr>
                   else this);
          oldSeqPosition = (if newSeq then 255 else curSeqPosition this)
      in case read p st this1 of
           Inl e \<Rightarrow> Inl e
         | Inr r \<Rightarrow>
             (let i1 = curSeqPosition this1;
                  this2 =
                    (if r = int (position (seq_cell sequenceIn i1)) \<and> i1 \<noteq> CURRENT_SEQUENCE_STOP p then
                       (let c = to_uint8 (i1 + 1) in
                        if c \<ge> numPositions then
                          (if loop then this1\<lparr>curSeqPosition := 0\<rparr>
                           else this1\<lparr>curSeqPosition := CURRENT_SEQUENCE_STOP p\<rparr>)
                        else this1\<lparr>curSeqPosition := c\<rparr>)
                     else this1);
                  i2 = curSeqPosition this2
              in if i2 \<noteq> oldSeqPosition \<and> i2 \<noteq> CURRENT_SEQUENCE_STOP p then
                   (case write_speed p st this2 (int (position (seq_cell sequenceIn i2)))
                           (wp_speed (seq_cell sequenceIn i2)) of
                      Inl e \<Rightarrow> Inl e
                    | Inr st1 \<Rightarrow> Inr (st1, this2, i2, [i1, i2, i2]))
                 else Inr (st, this2, i2, [i1])))"


text \<open>The indices a call read, and whether all of them are below a bound.\<close>

definition reads_of :: "fault + (state \<times> VarSpeedServo \<times> nat \<times> nat list) \<Rightarrow> nat list" where
  "reads_of r = (case r of Inl e \<Rightarrow> [] | Inr (st, this, i, rs) \<Rightarrow> rs)"

definition reads_below :: "nat \<Rightarrow> fault + (state \<times> VarSpeedServo \<times> nat \<times> nat list) \<Rightarrow> bool" where
  "reads_below n r = list_all (\<lambda>i. i < n) (reads_of r)"

section \<open>Well-formed tables and objects\<close>

text \<open>
  The table has \<open>MAX_SERVOS\<close> entries, the count of objects built never exceeds it, there is
  one channel index per timer, the invalid index is a byte that is no index of the table, and
  the compare register holds a 16-bit value.
\<close>

definition state_ok :: "platform \<Rightarrow> state \<Rightarrow> bool" where
  "state_ok p st =
     (length (servos st) = MAX_SERVOS p \<and> ServoCount st \<le> MAX_SERVOS p \<and>
      length (currentServoIndex st) = Nbr_16timers p \<and>
      MAX_SERVOS p = Nbr_16timers p * SERVOS_PER_TIMER p \<and>
      MAX_SERVOS p \<le> INVALID_SERVO p \<and> INVALID_SERVO p \<le> 255 \<and>
      0 \<le> CCMP st \<and> CCMP st < 65536)"

text \<open>An object that owns an entry of the table; its two calibration members are \<^verbatim>\<open>int8_t\<close>.\<close>

definition object_ok :: "platform \<Rightarrow> VarSpeedServo \<Rightarrow> bool" where
  "object_ok p this =
     (servoIndex this < MAX_SERVOS p \<and>
      - 128 \<le> min_trim this \<and> min_trim this \<le> 127 \<and>
      - 128 \<le> max_trim this \<and> max_trim this \<le> 127)"

definition is_int16 :: "int \<Rightarrow> bool" where
  "is_int16 v = (- 32768 \<le> v \<and> v \<le> 32767)"

text \<open>Every per-timer channel index is the sentinel or a channel of the timer.\<close>

definition channel_index_ok :: "platform \<Rightarrow> state \<Rightarrow> bool" where
  "channel_index_ok p st =
     list_all (\<lambda>i. i = - 1 \<or> (0 \<le> i \<and> i < int (SERVOS_PER_TIMER p))) (currentServoIndex st)"

section \<open>The write protocol as the specification words it\<close>

definition clamp :: "int \<Rightarrow> int \<Rightarrow> int \<Rightarrow> int" where
  "clamp lo hi x = max lo (min hi x)"

text \<open>The linear map of an angle in degrees onto the calibrated range of the servo.\<close>

definition angle_to_us :: "VarSpeedServo \<Rightarrow> int \<Rightarrow> int" where
  "angle_to_us this a = SERVO_MIN this + (a * (SERVO_MAX this - SERVO_MIN this)) div 180"

text \<open>
  The pulse width in microseconds that a written value stands for: an angle below the
  minimum valid pulse width, microseconds from there on.
\<close>

definition requested_us :: "VarSpeedServo \<Rightarrow> int \<Rightarrow> int" where
  "requested_us this v = (if v < 544 then angle_to_us this (clamp 0 180 v) else v)"

text \<open>
  The tick value of a write: clamped to the calibrated range, less the trim compensation of
  5, converted to ticks.
\<close>

definition pulse_ticks :: "platform \<Rightarrow> VarSpeedServo \<Rightarrow> int \<Rightarrow> int" where
  "pulse_ticks p this v =
     (clockCyclesPerMicrosecond p div 16 *
        (clamp (SERVO_MIN this) (SERVO_MAX this) (requested_us this v) - 5)) div 4"

section \<open>A concrete board\<close>

text \<open>
  A 16 MHz board with one timer of twelve channels, the table as the C runtime zeroes it,
  and the table after one object was built and attached to pin 9 with the default bounds.
\<close>

definition megaavr :: platform where
  "megaavr = \<lparr>clockCyclesPerMicrosecond = 16, SERVOS_PER_TIMER = 12, Nbr_16timers = 1,
     MAX_SERVOS = 12, INVALID_SERVO = 255, CURRENT_SEQUENCE_STOP = 255,
     DEFAULT_PULSE_WIDTH = 1500\<rparr>"

definition zero_servo :: servo_t where
  "zero_servo = \<lparr>Pin_nbr = 0, Pin_isActive = False, ticks = 0, svalue = 0, target = 0, speed = 0\<rparr>"

definition boot_state :: state where
  "boot_state = \<lparr>servos = replicate 12 zero_servo, ServoCount = 0, currentServoIndex = [0],
     CCMP = 0, calls = []\<rparr>"

definition first_servo :: VarSpeedServo where
  "first_servo = \<lparr>servoIndex = 0, min_trim = 0, max_trim = 0, curSequence = 0, curSeqPosition = 0\<rparr>"

definition one_servo_state :: state where
  "one_servo_state =
     \<lparr>servos = \<lparr>Pin_nbr = 9, Pin_isActive = True, ticks = 375, svalue = 0, target = 0, speed = 0\<rparr>
                 # replicate 11 zero_servo,
      ServoCount = 1, currentServoIndex = [- 1], CCMP = 0, calls = []\<rparr>"

text \<open>
  An array of two waypoints at address 1, followed in memory by zero bytes, and an object
  that is playing it.
\<close>

definition two_waypoints :: sequence where
  "two_waypoints = \<lparr>seq_addr = 1,
     seq_cell = (\<lambda>i. if i = 0 then \<lparr>position = 0, wp_speed = 100\<rparr>
                   else if i = 1 then \<lparr>position = 89, wp_speed = 100\<rparr>
                   else \<lparr>position = 0, wp_speed = 0\<rparr>)\<rparr>"

definition playing_servo :: VarSpeedServo where
  "playing_servo = \<lparr>servoIndex = 0, min_trim = 0, max_trim = 0, curSequence = 1, curSeqPosition = 1\<rparr>"

text \<open>The table after \<^verbatim>\<open>write(90)\<close> on that board: the servo reports 89 degrees.\<close>

definition moved_state :: state where
  "moved_state =
     \<lparr>servos = \<lparr>Pin_nbr = 9, Pin_isActive = True, ticks = 366, svalue = 1472, target = 0, speed = 0\<rparr>
                 # replicate 11 zero_servo,
      ServoCount = 1, currentServoIndex = [- 1], CCMP = 0, calls = []\<rparr>"

text \<open>
  The same board with all twelve servos attached, on pins 2 to 13, each after
  \<^verbatim>\<open>write(180)\<close>: 2400 microseconds less the trim are 598 ticks.
\<close>

definition busy_state :: state where
  "busy_state =
     \<lparr>servos = map (\<lambda>pin. \<lparr>Pin_nbr = int pin, Pin_isActive = True, ticks = 598, svalue = 2400,
                                target = 0, speed = 0\<rparr>) [2 ..< 14],
      ServoCount = 12, currentServoIndex = [- 1], CCMP = 0, calls = []\<rparr>"

text \<open>A board of the same family clocked at 20 MHz.\<close>

definition megaavr_20MHz :: platform where
  "megaavr_20MHz = megaavr\<lparr>clockCyclesPerMicrosecond := 20\<rparr>"

text \<open>An object built after the table was full.\<close>

definition late_servo :: VarSpeedServo where
  "late_servo = \<lparr>servoIndex = 255, min_trim = 0, max_trim = 0, curSequence = 0, curSeqPosition = 0\<rparr>"

section \<open>Arithmetic of the conversions\<close>


lemma to_int16_id: "is_int16 x \<Longrightarrow> to_int16 x = x"
  by (simp add: to_int16_def is_int16_def)

lemma c_div_nonneg: "0 \<le> a \<Longrightarrow> 0 \<le> b \<Longrightarrow> c_div a b = a div b"
  by (auto simp: c_div_def)

lemma SERVO_MIN_range: "object_ok p this \<Longrightarrow> 36 \<le> SERVO_MIN this \<and> SERVO_MIN this \<le> 1056"
  by (simp add: object_ok_def SERVO_MIN_def MIN_PULSE_WIDTH_def)

lemma SERVO_MAX_range: "object_ok p this \<Longrightarrow> 1892 \<le> SERVO_MAX this \<and> SERVO_MAX this \<le> 2912"
  by (simp add: object_ok_def SERVO_MAX_def MAX_PULSE_WIDTH_def)

lemma angle_to_us_range:
  assumes ok: "object_ok p this" and a: "0 \<le> a" "a \<le> 180"
  shows "SERVO_MIN this \<le> angle_to_us this a \<and> angle_to_us this a \<le> SERVO_MAX this"
proof -
  let ?R = "SERVO_MAX this - SERVO_MIN this"
  have R: "0 \<le> ?R" using SERVO_MIN_range [OF ok] SERVO_MAX_range [OF ok] by linarith
  have lo: "0 \<le> (a * ?R) div 180" using a R by (simp add: pos_imp_zdiv_nonneg_iff)
  have "a * ?R \<le> 180 * ?R" using a(2) R by (rule mult_right_mono)
  then have "(a * ?R) div 180 \<le> (180 * ?R) div 180" by (rule zdiv_mono1) simp
  then have hi: "(a * ?R) div 180 \<le> ?R" by simp
  show ?thesis using lo hi by (simp add: angle_to_us_def)
qed

lemma map_c_angle:
  assumes ok: "object_ok p this" and a: "0 \<le> a" "a \<le> 180"
  shows "map_c a 0 180 (SERVO_MIN this) (SERVO_MAX this) = angle_to_us this a"
proof -
  have R: "0 \<le> SERVO_MAX this - SERVO_MIN this"
    using SERVO_MIN_range [OF ok] SERVO_MAX_range [OF ok] by linarith
  have "0 \<le> a * (SERVO_MAX this - SERVO_MIN this)" using a R by simp
  then show ?thesis by (simp add: map_c_def angle_to_us_def c_div_nonneg)
qed

lemma requested_us_range:
  assumes ok: "object_ok p this" and v: "is_int16 v"
  shows "is_int16 (requested_us this v)"
proof (cases "v < 544")
  case True
  have c: "0 \<le> clamp 0 180 v" "clamp 0 180 v \<le> 180" by (simp_all add: clamp_def)
  from angle_to_us_range [OF ok c] SERVO_MIN_range [OF ok] SERVO_MAX_range [OF ok]
  show ?thesis using True by (simp add: requested_us_def is_int16_def)
next
  case False
  then show ?thesis using v by (simp add: requested_us_def)
qed

lemma clamp_range: "lo \<le> hi \<Longrightarrow> lo \<le> clamp lo hi x \<and> clamp lo hi x \<le> hi"
  by (simp add: clamp_def)

lemma ticks_bound:
  assumes k: "0 \<le> (k::int)" "k \<le> 45" and x: "0 \<le> (x::int)" "x \<le> 2907"
  shows "0 \<le> (k * x) div 4 \<and> (k * x) div 4 \<le> 32767"
proof -
  have "k * x \<le> 45 * 2907" using k x by (intro mult_mono) simp_all
  then have "(k * x) div 4 \<le> (45 * 2907) div 4" by (rule zdiv_mono1) simp
  moreover have "0 \<le> k * x" using k x by simp
  ultimately show ?thesis by (simp add: pos_imp_zdiv_nonneg_iff)
qed


lemma channel_valid:
  assumes "state_ok p st" "object_ok p this"
  shows "int (to_uint8 (servoIndex this)) = int (servoIndex this)"
    and "servo_at st (int (servoIndex this)) = Inr (servos st ! servoIndex this)"
    and "servoIndex this < length (servos st)"
proof -
  have len: "length (servos st) = MAX_SERVOS p" and small: "MAX_SERVOS p \<le> 255"
    using assms(1) by (simp_all add: state_ok_def)
  have idx: "servoIndex this < MAX_SERVOS p" using assms(2) by (simp add: object_ok_def)
  show "int (to_uint8 (servoIndex this)) = int (servoIndex this)"
    using idx small by (simp add: to_uint8_def)
  show "servoIndex this < length (servos st)" using idx len by simp
  then show "servo_at st (int (servoIndex this)) = Inr (servos st ! servoIndex this)"
    by (simp add: servo_at_def)
qed

lemma servo_at_put:
  "i < length (servos st) \<Longrightarrow> servo_at (servo_put st (int i) s) (int i) = Inr s"
  by (simp add: servo_at_def servo_put_def)

lemma servo_put_put:
  "servo_put (servo_put st (int i) s) (int i) s' = st\<lparr>servos := (servos st)[i := s']\<rparr>"
  by (simp add: servo_put_def)

lemma clamp_code:
  "lo \<le> hi \<Longrightarrow> (if x < lo then lo else if x > hi then hi else x) = clamp lo hi x"
  by (simp add: clamp_def)

lemma trimmed_ticks:
  assumes ok: "object_ok p this"
      and cpu: "0 \<le> clockCyclesPerMicrosecond p" "clockCyclesPerMicrosecond p < 736"
  shows "to_int16 (usToTicks p (to_int16 (clamp (SERVO_MIN this) (SERVO_MAX this) u - TRIM_DURATION)))
         = (clockCyclesPerMicrosecond p div 16 * (clamp (SERVO_MIN this) (SERVO_MAX this) u - 5)) div 4"
proof -
  let ?c = "clamp (SERVO_MIN this) (SERVO_MAX this) u"
  let ?k = "clockCyclesPerMicrosecond p div 16"
  have le: "SERVO_MIN this \<le> SERVO_MAX this"
    using SERVO_MIN_range [OF ok] SERVO_MAX_range [OF ok] by linarith
  have c: "36 \<le> ?c" "?c \<le> 2912"
    using clamp_range [OF le, of u] SERVO_MIN_range [OF ok] SERVO_MAX_range [OF ok] by linarith+
  have t: "to_int16 (?c - TRIM_DURATION) = ?c - 5"
    using c by (simp add: to_int16_id is_int16_def TRIM_DURATION_def)
  have k: "0 \<le> ?k" "?k \<le> 45" using cpu by simp_all
  have x: "0 \<le> ?c - 5" "?c - 5 \<le> 2907" using c by simp_all
  have b: "0 \<le> (?k * (?c - 5)) div 4 \<and> (?k * (?c - 5)) div 4 \<le> 32767"
    by (rule ticks_bound [OF k x])
  have u: "usToTicks p (?c - 5) = (?k * (?c - 5)) div 4"
    using cpu(1) k(1) x(1) by (simp add: usToTicks_def c_div_nonneg)
  show ?thesis using b by (simp add: t u to_int16_id is_int16_def)
qed

lemma writeMicroseconds_valid:
  assumes st: "state_ok p st" and ok: "object_ok p this"
      and cpu: "0 \<le> clockCyclesPerMicrosecond p" "clockCyclesPerMicrosecond p < 736"
  shows "writeMicroseconds p st this u =
           Inr (st\<lparr>servos := (servos st)[servoIndex this :=
                  (servos st ! servoIndex this)\<lparr>svalue := u,
                     ticks := (clockCyclesPerMicrosecond p div 16 *
                                (clamp (SERVO_MIN this) (SERVO_MAX this) u - 5)) div 4\<rparr>]\<rparr>)"
proof -
  have le: "SERVO_MIN this \<le> SERVO_MAX this"
    using SERVO_MIN_range [OF ok] SERVO_MAX_range [OF ok] by linarith
  have idx: "servoIndex this < MAX_SERVOS p" using ok by (simp add: object_ok_def)
  show ?thesis
    unfolding writeMicroseconds_def Let_def channel_valid [OF st ok] clamp_code [OF le]
      trimmed_ticks [OF ok cpu]
    using idx channel_valid(3) [OF st ok]
    by (simp add: servo_at_put servo_put_put)
qed

lemma write_value_valid:
  assumes st: "state_ok p st" and ok: "object_ok p this" and v: "is_int16 v"
      and cpu: "0 \<le> clockCyclesPerMicrosecond p" "clockCyclesPerMicrosecond p < 736"
  shows "write_value p st this v = writeMicroseconds p st this (requested_us this v)"
proof (cases "v < 544")
  case True
  have c: "0 \<le> clamp 0 180 v" "clamp 0 180 v \<le> 180" by (simp_all add: clamp_def)
  have m: "map_c (clamp 0 180 v) 0 180 (SERVO_MIN this) (SERVO_MAX this)
             = angle_to_us this (clamp 0 180 v)"
    by (rule map_c_angle [OF ok c])
  have r: "is_int16 (angle_to_us this (clamp 0 180 v))"
    using requested_us_range [OF ok v] True by (simp add: requested_us_def)
  have "(if v < 0 then 0 else if v > 180 then 180 else v) = clamp 0 180 v"
    by (rule clamp_code) simp
  then show ?thesis using True
    by (simp add: write_value_def MIN_PULSE_WIDTH_def requested_us_def m to_int16_id [OF r])
next
  case False
  then show ?thesis by (simp add: write_value_def MIN_PULSE_WIDTH_def requested_us_def)
qed

lemma megaavr_ok: "state_ok megaavr one_servo_state" "object_ok megaavr first_servo"
  by (simp_all add: state_ok_def object_ok_def megaavr_def one_servo_state_def first_servo_def)

section \<open>Immediate writes\<close>

text \<open>
  C1. For an object that owns a table entry, with its calibration members in their
  \<^verbatim>\<open>int8_t\<close> range, and every \<^verbatim>\<open>int\<close> value \<open>v\<close>: \<^verbatim>\<open>write(v)\<close> takes \<open>v\<close> below 544 as an angle,
  clamps it to 0..180 and maps it linearly onto the calibrated range, and takes \<open>v\<close> from 544
  on as microseconds; the result is clamped to the calibrated range, reduced by the trim
  compensation of 5, converted to ticks and stored in the \<open>ticks\<close> field of the entry at once.
  Nothing else of the state changes but the entry's \<open>svalue\<close> field. The clock parameter is
  any value whose tick results fit an \<^verbatim>\<open>int\<close>.
\<close>

theorem write_stores_ticks:
  assumes st: "state_ok p st" and ok: "object_ok p this" and v: "is_int16 v"
      and cpu: "0 \<le> clockCyclesPerMicrosecond p" "clockCyclesPerMicrosecond p < 736"
  shows "write_value p st this v =
           Inr (st\<lparr>servos := (servos st)[servoIndex this :=
                  (servos st ! servoIndex this)\<lparr>svalue := requested_us this v,
                     ticks := pulse_ticks p this v\<rparr>]\<rparr>)"
  unfolding write_value_valid [OF st ok v cpu] writeMicroseconds_valid [OF st ok cpu]
  by (simp add: pulse_ticks_def)

theorem write_stores_ticks_witness:
  "state_ok megaavr one_servo_state \<and> object_ok megaavr first_servo \<and> is_int16 90 \<and>
   map_sum id (\<lambda>s. (svalue (servos s ! 0), ticks (servos s ! 0)))
     (write_value megaavr one_servo_state first_servo 90) = Inr (1472, 366)"
proof -
  have v: "is_int16 90" by (simp add: is_int16_def)
  have c: "0 \<le> clockCyclesPerMicrosecond megaavr" "clockCyclesPerMicrosecond megaavr < 736"
    by (simp_all add: megaavr_def)
  have "map_sum id (\<lambda>s. (svalue (servos s ! 0), ticks (servos s ! 0)))
          (write_value megaavr one_servo_state first_servo 90) = Inr (1472, 366)"
    unfolding write_stores_ticks [OF megaavr_ok v c]
    by (simp add: pulse_ticks_def requested_us_def angle_to_us_def clamp_def SERVO_MIN_def
          SERVO_MAX_def MIN_PULSE_WIDTH_def MAX_PULSE_WIDTH_def megaavr_def one_servo_state_def
          first_servo_def)
  then show ?thesis using megaavr_ok v by simp
qed

section \<open>Writes with a speed\<close>

lemma constrain_clamp: "lo \<le> hi \<Longrightarrow> constrain x lo hi = clamp lo hi x"
  by (simp add: constrain_def clamp_def)

lemma state_ok_servo_put:
  "state_ok p st \<Longrightarrow> state_ok p (servo_put st i s)"
  by (simp add: state_ok_def servo_put_def)

lemma requested_us_code:
  assumes ok: "object_ok p this" and v: "is_int16 v"
  shows "(if v < MIN_PULSE_WIDTH
          then to_int16 (map_c (constrain v 0 180) 0 180 (SERVO_MIN this) (SERVO_MAX this))
          else v) = requested_us this v"
proof (cases "v < 544")
  case True
  have c: "0 \<le> clamp 0 180 v" "clamp 0 180 v \<le> 180" by (simp_all add: clamp_def)
  have r: "is_int16 (angle_to_us this (clamp 0 180 v))"
    using requested_us_range [OF ok v] True by (simp add: requested_us_def)
  show ?thesis using True
    by (simp add: MIN_PULSE_WIDTH_def requested_us_def constrain_clamp map_c_angle [OF ok c]
          to_int16_id [OF r])
next
  case False
  then show ?thesis by (simp add: MIN_PULSE_WIDTH_def requested_us_def)
qed

lemma write_speed_nonzero:
  assumes st: "state_ok p st" and ok: "object_ok p this" and v: "is_int16 v"
      and cpu: "0 \<le> clockCyclesPerMicrosecond p" "clockCyclesPerMicrosecond p < 736"
      and spd: "spd \<noteq> 0"
  shows "write_speed p st this v spd =
           Inr (st\<lparr>servos := (servos st)[servoIndex this :=
                  (servos st ! servoIndex this)\<lparr>svalue := v, target := pulse_ticks p this v,
                     speed := spd\<rparr>]\<rparr>)"
proof -
  have le: "SERVO_MIN this \<le> SERVO_MAX this"
    using SERVO_MIN_range [OF ok] SERVO_MAX_range [OF ok] by linarith
  have idx: "servoIndex this < MAX_SERVOS p" using ok by (simp add: object_ok_def)
  show ?thesis
    unfolding write_speed_def Let_def channel_valid [OF st ok] requested_us_code [OF ok v]
      constrain_clamp [OF le] trimmed_ticks [OF ok cpu]
    using idx channel_valid(3) [OF st ok] spd
    by (simp add: servo_at_put servo_put_put pulse_ticks_def)
qed

lemma write_speed_zero:
  assumes st: "state_ok p st" and ok: "object_ok p this" and v: "is_int16 v"
      and cpu: "0 \<le> clockCyclesPerMicrosecond p" "clockCyclesPerMicrosecond p < 736"
  shows "write_speed p st this v 0 = write_value p st this v"
proof -
  let ?i = "servoIndex this"
  let ?st1 = "servo_put st (int ?i) ((servos st ! ?i)\<lparr>svalue := v\<rparr>)"
  have st1: "state_ok p ?st1" by (rule state_ok_servo_put [OF st])
  have len: "?i < length (servos st)" by (rule channel_valid(3) [OF st ok])
  have "write_speed p st this v 0 = write_value p ?st1 this v"
    unfolding write_speed_def Let_def channel_valid [OF st ok] by simp
  also have "\<dots> = write_value p st this v"
    unfolding write_value_valid [OF st1 ok v cpu] write_value_valid [OF st ok v cpu]
      writeMicroseconds_valid [OF st1 ok cpu] writeMicroseconds_valid [OF st ok cpu]
    using len by (simp add: servo_put_def)
  finally show ?thesis .
qed

text \<open>
  C3. For an object that owns a table entry and every \<^verbatim>\<open>int\<close> value: \<^verbatim>\<open>write(value, speed)\<close>
  with a speed other than 0 stores the clamped, trim-compensated tick result in the \<open>target\<close>
  field together with the speed, records the value as passed, and leaves the \<open>ticks\<close> field
  and everything else as they were; with speed 0 it ends in exactly the state that
  \<^verbatim>\<open>write(value)\<close> ends in.
\<close>

theorem write_speed_effect:
  assumes st: "state_ok p st" and ok: "object_ok p this" and v: "is_int16 v"
      and cpu: "0 \<le> clockCyclesPerMicrosecond p" "clockCyclesPerMicrosecond p < 736"
  shows "(spd \<noteq> 0 \<longrightarrow>
            write_speed p st this v spd =
              Inr (st\<lparr>servos := (servos st)[servoIndex this :=
                     (servos st ! servoIndex this)\<lparr>svalue := v, target := pulse_ticks p this v,
                        speed := spd\<rparr>]\<rparr>)) \<and>
         write_speed p st this v 0 = write_value p st this v"
  using write_speed_nonzero [OF st ok v cpu] write_speed_zero [OF st ok v cpu] by blast

lemma cpu_megaavr:
  "0 \<le> clockCyclesPerMicrosecond megaavr" "clockCyclesPerMicrosecond megaavr < 736"
  by (simp_all add: megaavr_def)

lemma is_int16_examples: "is_int16 90" "is_int16 1500" "is_int16 0" "is_int16 45"
  by (simp_all add: is_int16_def)

theorem write_speed_effect_witness:
  "map_sum id (\<lambda>s. (ticks (servos s ! 0), svalue (servos s ! 0), target (servos s ! 0),
       speed (servos s ! 0))) (write_speed megaavr one_servo_state first_servo 90 10)
     = Inr (375, 90, 366, 10) \<and>
   write_speed megaavr one_servo_state first_servo 90 0
     = write_value megaavr one_servo_state first_servo 90"
proof -
  note t = write_speed_effect [OF megaavr_ok is_int16_examples(1) cpu_megaavr, of 10]
  have n: "(10::nat) \<noteq> 0" by simp
  from t n have e: "write_speed megaavr one_servo_state first_servo 90 10 =
      Inr (one_servo_state\<lparr>servos := (servos one_servo_state)[servoIndex first_servo :=
             (servos one_servo_state ! servoIndex first_servo)\<lparr>svalue := 90,
                target := pulse_ticks megaavr first_servo 90, speed := 10\<rparr>]\<rparr>)"
    by blast
  have "map_sum id (\<lambda>s. (ticks (servos s ! 0), svalue (servos s ! 0), target (servos s ! 0),
       speed (servos s ! 0))) (write_speed megaavr one_servo_state first_servo 90 10)
     = Inr (375, 90, 366, 10)"
    unfolding e
    by (simp add: pulse_ticks_def requested_us_def angle_to_us_def clamp_def SERVO_MIN_def
          SERVO_MAX_def MIN_PULSE_WIDTH_def MAX_PULSE_WIDTH_def megaavr_def one_servo_state_def
          first_servo_def)
  then show ?thesis using t by blast
qed

section \<open>The value recorded by a write\<close>

text \<open>
  C8. The claim is that each of the three write entry points leaves the argument, as the
  caller passed it, in the \<open>svalue\<close> field. \<^verbatim>\<open>writeMicroseconds\<close> and \<^verbatim>\<open>write(value, speed)\<close>
  with a speed other than 0 do. \<^verbatim>\<open>write(value)\<close> does not record its argument; it hands the
  converted microsecond value to \<^verbatim>\<open>writeMicroseconds\<close>, which records that. On the 16 MHz
  board with the default bounds, \<^verbatim>\<open>write(90)\<close> and \<^verbatim>\<open>write(90, 0)\<close> leave 1472 in the field,
  \<^verbatim>\<open>write(90, 10)\<close> leaves 90, and \<^verbatim>\<open>isMoving()\<close> after \<^verbatim>\<open>write(90)\<close> compares the pulse width
  read back with 1472 and answers true.
\<close>

theorem write_value_records_microseconds:
  "map_sum id (\<lambda>s. svalue (servos s ! 0)) (write_value megaavr one_servo_state first_servo 90)
     = Inr 1472 \<and>
   map_sum id (\<lambda>s. svalue (servos s ! 0)) (write_speed megaavr one_servo_state first_servo 90 0)
     = Inr 1472 \<and>
   map_sum id (\<lambda>s. svalue (servos s ! 0)) (write_speed megaavr one_servo_state first_servo 90 10)
     = Inr 90 \<and>
   map_sum id (\<lambda>s. svalue (servos s ! 0)) (writeMicroseconds megaavr one_servo_state first_servo 90)
     = Inr 90 \<and>
   (case write_value megaavr one_servo_state first_servo 90 of
      Inl e \<Rightarrow> Inl e | Inr s \<Rightarrow> isMoving megaavr s first_servo) = Inr True"
proof -
  note v = is_int16_examples(1)
  have n: "(10::nat) \<noteq> 0" by simp
  note defs = pulse_ticks_def requested_us_def angle_to_us_def clamp_def SERVO_MIN_def
    SERVO_MAX_def MIN_PULSE_WIDTH_def MAX_PULSE_WIDTH_def TRIM_DURATION_def megaavr_def
    one_servo_state_def first_servo_def
  have a: "map_sum id (\<lambda>s. svalue (servos s ! 0))
             (write_value megaavr one_servo_state first_servo 90) = Inr 1472"
    unfolding write_value_valid [OF megaavr_ok v cpu_megaavr]
      writeMicroseconds_valid [OF megaavr_ok cpu_megaavr]
    by (simp add: defs)
  have b: "map_sum id (\<lambda>s. svalue (servos s ! 0))
             (write_speed megaavr one_servo_state first_servo 90 0) = Inr 1472"
    unfolding write_speed_zero [OF megaavr_ok v cpu_megaavr] by (rule a)
  have c: "map_sum id (\<lambda>s. svalue (servos s ! 0))
             (write_speed megaavr one_servo_state first_servo 90 10) = Inr 90"
    unfolding write_speed_nonzero [OF megaavr_ok v cpu_megaavr n] by (simp add: defs)
  have d: "map_sum id (\<lambda>s. svalue (servos s ! 0))
             (writeMicroseconds megaavr one_servo_state first_servo 90) = Inr 90"
    unfolding writeMicroseconds_valid [OF megaavr_ok cpu_megaavr] by (simp add: defs)
  have e: "(case write_value megaavr one_servo_state first_servo 90 of
      Inl e \<Rightarrow> Inl e | Inr s \<Rightarrow> isMoving megaavr s first_servo) = Inr True"
    unfolding write_value_valid [OF megaavr_ok v cpu_megaavr]
      writeMicroseconds_valid [OF megaavr_ok cpu_megaavr]
    by (simp add: defs isMoving_def readMicroseconds_def read_def servo_at_def to_uint8_def
          to_int16_def to_uint16_def ticksToUs_def c_div_def map_c_def)
  show ?thesis using a b c d e by blast
qed

section \<open>Objects without a table entry\<close>

lemma invalid_channel:
  assumes st: "state_ok p st" and inv: "servoIndex this = INVALID_SERVO p"
  shows "servo_at st (int (to_uint8 (servoIndex this))) = Inl (ServoOutOfBounds (int (INVALID_SERVO p)))"
proof -
  have len: "length (servos st) = MAX_SERVOS p" and lo: "MAX_SERVOS p \<le> INVALID_SERVO p"
    and hi: "INVALID_SERVO p \<le> 255"
    using st by (simp_all add: state_ok_def)
  have "to_uint8 (servoIndex this) = INVALID_SERVO p" using inv hi by (simp add: to_uint8_def)
  then show ?thesis using len lo by (simp add: servo_at_def)
qed

text \<open>
  C4. The claim is that an object built after the table was full reads as zero and that its
  writes leave the servo table as it was. The constructor gives such an object the invalid
  index and \<^verbatim>\<open>readMicroseconds\<close> answers 0 for it. The three write entry points, however,
  store the value in \<^verbatim>\<open>servos[servoIndex].value\<close> before they test the index, which is an
  access past the end of the table.
\<close>

theorem invalid_object_writes_past_table:
  assumes st: "state_ok p st" and full: "ServoCount st = MAX_SERVOS p"
  shows "VarSpeedServo_new p st this a = Inr (st, this\<lparr>servoIndex := INVALID_SERVO p\<rparr>) \<and>
         readMicroseconds p st (this\<lparr>servoIndex := INVALID_SERVO p\<rparr>) = Inr 0 \<and>
         writeMicroseconds p st (this\<lparr>servoIndex := INVALID_SERVO p\<rparr>) v
           = Inl (ServoOutOfBounds (int (INVALID_SERVO p))) \<and>
         write_value p st (this\<lparr>servoIndex := INVALID_SERVO p\<rparr>) v
           = Inl (ServoOutOfBounds (int (INVALID_SERVO p))) \<and>
         write_speed p st (this\<lparr>servoIndex := INVALID_SERVO p\<rparr>) v spd
           = Inl (ServoOutOfBounds (int (INVALID_SERVO p)))"
proof -
  let ?t = "this\<lparr>servoIndex := INVALID_SERVO p\<rparr>"
  have i: "servoIndex ?t = INVALID_SERVO p" by simp
  note c = invalid_channel [OF st i]
  have 1: "VarSpeedServo_new p st this a = Inr (st, ?t)"
    using full by (simp add: VarSpeedServo_new_def)
  have 2: "readMicroseconds p st ?t = Inr 0"
    by (simp add: readMicroseconds_def to_int16_def to_uint16_def)
  have 3: "writeMicroseconds p st ?t u = Inl (ServoOutOfBounds (int (INVALID_SERVO p)))" for u
    unfolding writeMicroseconds_def Let_def c by simp
  have 4: "write_value p st ?t v = Inl (ServoOutOfBounds (int (INVALID_SERVO p)))"
    unfolding write_value_def Let_def 3 by simp
  have 5: "write_speed p st ?t v spd = Inl (ServoOutOfBounds (int (INVALID_SERVO p)))"
    unfolding write_speed_def Let_def c by simp
  show ?thesis using 1 2 3 4 5 by blast
qed

theorem invalid_object_writes_past_table_witness:
  "state_ok megaavr (one_servo_state\<lparr>ServoCount := 12\<rparr>) \<and>
   VarSpeedServo_new megaavr (one_servo_state\<lparr>ServoCount := 12\<rparr>) first_servo 0
     = Inr (one_servo_state\<lparr>ServoCount := 12\<rparr>, late_servo) \<and>
   readMicroseconds megaavr (one_servo_state\<lparr>ServoCount := 12\<rparr>) late_servo = Inr 0 \<and>
   writeMicroseconds megaavr (one_servo_state\<lparr>ServoCount := 12\<rparr>) late_servo 1500
     = Inl (ServoOutOfBounds 255) \<and>
   write_value megaavr (one_servo_state\<lparr>ServoCount := 12\<rparr>) late_servo 90
     = Inl (ServoOutOfBounds 255) \<and>
   write_speed megaavr (one_servo_state\<lparr>ServoCount := 12\<rparr>) late_servo 90 10
     = Inl (ServoOutOfBounds 255)"
proof -
  let ?st = "one_servo_state\<lparr>ServoCount := 12\<rparr>"
  have st: "state_ok megaavr ?st"
    by (simp add: state_ok_def megaavr_def one_servo_state_def)
  have full: "ServoCount ?st = MAX_SERVOS megaavr" by (simp add: megaavr_def)
  have l: "first_servo\<lparr>servoIndex := INVALID_SERVO megaavr\<rparr> = late_servo"
    by (simp add: first_servo_def late_servo_def megaavr_def)
  have i: "int (INVALID_SERVO megaavr) = 255" by (simp add: megaavr_def)
  show ?thesis
    using st invalid_object_writes_past_table [OF st full, of first_servo 0 1500 10]
      invalid_object_writes_past_table [OF st full, of first_servo 0 90 10]
    unfolding l i by blast
qed

section \<open>The interrupt handler: end of a cycle\<close>

lemma to_uint16_range: "0 \<le> to_uint16 x \<and> to_uint16 x < 65536"
  by (simp add: to_uint16_def)

lemma to_uint16_id: "0 \<le> x \<Longrightarrow> x < 65536 \<Longrightarrow> to_uint16 x = x"
  by (simp add: to_uint16_def)

lemma refresh_ticks:
  assumes "0 \<le> clockCyclesPerMicrosecond p" "clockCyclesPerMicrosecond p < 272"
  shows "0 \<le> usToTicks p 16000 \<and> usToTicks p 16000 < 65536"
proof -
  let ?k = "clockCyclesPerMicrosecond p div 16"
  have k: "0 \<le> ?k" "?k \<le> 16" using assms by simp_all
  have u: "usToTicks p 16000 = ?k * 4000"
    using assms(1) k(1) by (simp add: usToTicks_def c_div_nonneg)
  show ?thesis unfolding u using k by simp
qed

lemma servo_index_in_table:
  assumes st: "state_ok p st" and i: "0 \<le> idx"
      and c: "SERVO_INDEX p (int timer) idx < int (ServoCount st)"
  shows "servo_at st (SERVO_INDEX p (int timer) idx) = Inr (servos st ! nat (SERVO_INDEX p (int timer) idx))"
proof -
  have len: "length (servos st) = MAX_SERVOS p" and cnt: "ServoCount st \<le> MAX_SERVOS p"
    using st by (simp_all add: state_ok_def)
  have "0 \<le> int timer * int (SERVOS_PER_TIMER p)" by simp
  then have lo: "0 \<le> SERVO_INDEX p (int timer) idx" using i by (simp add: SERVO_INDEX_def)
  have hi: "SERVO_INDEX p (int timer) idx < int (length (servos st))" using c len cnt by simp
  show ?thesis using lo hi by (simp add: servo_at_def)
qed

lemma handler_pulse_end_result:
  assumes st: "state_ok p st"
  shows "\<exists>st1. handler_pulse_end p st timer idx = Inr st1 \<and> servos st1 = servos st \<and>
           ServoCount st1 = ServoCount st \<and> currentServoIndex st1 = currentServoIndex st \<and>
           CCMP st1 = (if idx < 0 then 0 else CCMP st)"
proof (cases "idx < 0")
  case True
  then show ?thesis by (simp add: handler_pulse_end_def)
next
  case False
  show ?thesis
  proof (cases "SERVO_INDEX p (int timer) idx < int (ServoCount st)")
    case True
    have i: "0 \<le> idx" using False by simp
    show ?thesis using False True
      by (simp add: handler_pulse_end_def servo_index_in_table [OF st i True] digitalWrite_def)
  next
    case nc: False
    then show ?thesis using False by (simp add: handler_pulse_end_def)
  qed
qed

lemma handler_next_exhausted:
  assumes "\<not> (SERVO_INDEX p (int timer) idx < int (ServoCount st) \<and> idx < int (SERVOS_PER_TIMER p))"
  shows "handler_next p st timer idx =
           Inr (st\<lparr>CCMP := (if CCMP st + 4 < usToTicks p 16000 then to_uint16 (usToTicks p 16000)
                            else to_uint16 (CCMP st + 4)),
                   currentServoIndex := (currentServoIndex st)[timer := - 1]\<rparr>)"
  unfolding handler_next_def if_not_P [OF assms] by (simp add: Let_def REFRESH_INTERVAL_def)

text \<open>
  What the end-of-cycle branch does, in terms of the register. When the test on the
  incremented index fails, the handler takes the content of the compare register (0 when the
  call started a cycle, since it has just cleared the register, and the content on entry
  otherwise), here \<open>elapsed\<close>: if \<open>elapsed + 4\<close> is below \<open>usToTicks 16000\<close> it arms exactly
  \<open>usToTicks 16000\<close>, otherwise \<open>elapsed + 4\<close> in the 16 bits of the register; either way it
  resets the channel index of the timer to -1.
\<close>

lemma handler_cycle_end_register:
  assumes st: "state_ok p st" and t: "timer < Nbr_16timers p"
      and cpu: "0 \<le> clockCyclesPerMicrosecond p" "clockCyclesPerMicrosecond p < 272"
      and ex: "\<not> (SERVO_INDEX p (int timer) (to_int8 (currentServoIndex st ! timer + 1))
                    < int (ServoCount st) \<and>
                  to_int8 (currentServoIndex st ! timer + 1) < int (SERVOS_PER_TIMER p))"
      and el: "elapsed = (if currentServoIndex st ! timer < 0 then 0 else CCMP st)"
  shows "\<exists>st'. ServoHandler p st timer = Inr st' \<and>
           currentServoIndex st' ! timer = - 1 \<and>
           (elapsed + 4 < usToTicks p 16000 \<longrightarrow> CCMP st' = usToTicks p 16000) \<and>
           (\<not> elapsed + 4 < usToTicks p 16000 \<longrightarrow> CCMP st' = (elapsed + 4) mod 65536) \<and>
           (\<not> elapsed + 4 < usToTicks p 16000 \<and> elapsed + 4 < 65536 \<longrightarrow> CCMP st' = elapsed + 4)"
proof -
  let ?idx = "currentServoIndex st ! timer"
  have len: "timer < length (currentServoIndex st)" using st t by (simp add: state_ok_def)
  have reg: "0 \<le> CCMP st" using st by (simp add: state_ok_def)
  obtain st1 where p1: "handler_pulse_end p st timer ?idx = Inr st1"
    and s1: "servos st1 = servos st" "ServoCount st1 = ServoCount st"
      "currentServoIndex st1 = currentServoIndex st"
    and c1: "CCMP st1 = elapsed"
    using handler_pulse_end_result [OF st, of timer ?idx] el by auto
  let ?st2 = "st1\<lparr>currentServoIndex :=
                (currentServoIndex st1)[timer := to_int8 (currentServoIndex st1 ! timer + 1)]\<rparr>"
  have i2: "currentServoIndex ?st2 ! timer = to_int8 (?idx + 1)" using len s1 by simp
  have ex2: "\<not> (SERVO_INDEX p (int timer) (currentServoIndex ?st2 ! timer) < int (ServoCount ?st2)
               \<and> currentServoIndex ?st2 ! timer < int (SERVOS_PER_TIMER p))"
    unfolding i2 using ex s1 by simp
  note n = handler_next_exhausted [OF ex2]
  have e0: "0 \<le> elapsed" using el reg by simp
  have r: "to_uint16 (usToTicks p 16000) = usToTicks p 16000"
    using refresh_ticks [OF cpu] by (simp add: to_uint16_id)
  have h: "ServoHandler p st timer =
      Inr (st1\<lparr>currentServoIndex := (currentServoIndex ?st2)[timer := - 1],
               CCMP := (if elapsed + 4 < usToTicks p 16000 then usToTicks p 16000
                        else to_uint16 (elapsed + 4)),
               calls := calls st1 @ [RegAssign INTFLAGS [TCB_CAPT_bm]]\<rparr>)"
  proof -
    have "ServoHandler p st timer =
        (case handler_next p ?st2 timer (currentServoIndex ?st2 ! timer) of
           Inl e \<Rightarrow> Inl e
         | Inr st3 \<Rightarrow> Inr (st3\<lparr>calls := calls st3 @ [RegAssign INTFLAGS [TCB_CAPT_bm]]\<rparr>))"
      using len by (simp only: ServoHandler_def p1 Let_def if_True sum.case)
    also have "\<dots> = Inr (st1\<lparr>currentServoIndex := (currentServoIndex ?st2)[timer := - 1],
               CCMP := (if elapsed + 4 < usToTicks p 16000 then usToTicks p 16000
                        else to_uint16 (elapsed + 4)),
               calls := calls st1 @ [RegAssign INTFLAGS [TCB_CAPT_bm]]\<rparr>)"
      unfolding n by (simp add: c1 r)
    finally show ?thesis .
  qed
  have l2: "timer < length (currentServoIndex ?st2)" using len s1 by simp
  show ?thesis unfolding h using l2 e0 by (simp add: to_uint16_def)
qed

text \<open>
  C2. The claim is that at the end of a cycle the handler compares the ticks elapsed in the
  cycle, plus the guard margin of 4, with the refresh interval, arms the refresh interval if
  the sum is below it and the elapsed value plus the margin otherwise, and resets the channel
  index to -1. The index is reset, and the two-way choice is made, but on the wrong quantity:
  the comment says \<^verbatim>\<open>Get the counter value\<close> and the code reads the compare register, which
  holds the width armed for the last channel. On the 16 MHz board with twelve servos at 598
  ticks each, thirteen interrupts from the start of a cycle arm 598 twelve times and then
  4000: when the thirteenth call runs, 7176 ticks of the cycle have elapsed, 7176 + 4 is not
  below the refresh interval of 4000 ticks, and the handler arms 4000 all the same.
\<close>

theorem refresh_wait_ignores_elapsed:
  "state_ok megaavr busy_state \<and>
   map_sum id (\<lambda>(s, periods). (periods, sum_list (butlast periods), currentServoIndex s))
     (run_periods megaavr busy_state 0 13)
     = Inr ([598, 598, 598, 598, 598, 598, 598, 598, 598, 598, 598, 598, 4000], 7176, [- 1]) \<and>
   usToTicks megaavr 16000 = 4000 \<and>
   \<not> 7176 + 4 < usToTicks megaavr 16000"
  by code_simp

section \<open>The interrupt handler: the channel index\<close>

lemma to_int8_id: "- 128 \<le> x \<Longrightarrow> x \<le> 127 \<Longrightarrow> to_int8 x = x"
  by (simp add: to_int8_def)

lemma channel_index_ok_nth:
  "channel_index_ok p st \<Longrightarrow> t < length (currentServoIndex st) \<Longrightarrow>
     currentServoIndex st ! t = - 1 \<or>
     (0 \<le> currentServoIndex st ! t \<and> currentServoIndex st ! t < int (SERVOS_PER_TIMER p))"
  by (simp add: channel_index_ok_def list_all_length)

lemma list_all_update:
  "list_all P xs \<Longrightarrow> P x \<Longrightarrow> list_all P (xs[i := x])"
  by (induction xs arbitrary: i) (auto split: nat.splits)

lemma handler_next_within:
  assumes st: "state_ok p st" and i: "0 \<le> idx"
      and c: "SERVO_INDEX p (int timer) idx < int (ServoCount st) \<and> idx < int (SERVOS_PER_TIMER p)"
  shows "\<exists>st'. handler_next p st timer idx = Inr st' \<and> servos st' = servos st \<and>
           ServoCount st' = ServoCount st \<and> currentServoIndex st' = currentServoIndex st \<and>
           0 \<le> CCMP st' \<and> CCMP st' < 65536"
proof -
  have a: "servo_at st (SERVO_INDEX p (int timer) idx)
             = Inr (servos st ! nat (SERVO_INDEX p (int timer) idx))"
    using c by (intro servo_index_in_table [OF st i]) simp
  show ?thesis
    unfolding handler_next_def if_P [OF c] a
    using to_uint16_range by (simp add: Let_def digitalWrite_def)
qed

lemma ServoHandler_preserves:
  assumes st: "state_ok p st" and inv: "channel_index_ok p st"
      and t: "timer < Nbr_16timers p" and spt: "SERVOS_PER_TIMER p \<le> 127"
  shows "\<exists>st'. ServoHandler p st timer = Inr st' \<and> state_ok p st' \<and> channel_index_ok p st'"
proof -
  let ?idx = "currentServoIndex st ! timer"
  let ?P = "\<lambda>i. i = - 1 \<or> (0 \<le> i \<and> i < int (SERVOS_PER_TIMER p))"
  have len: "timer < length (currentServoIndex st)" using st t by (simp add: state_ok_def)
  have old: "?idx = - 1 \<or> (0 \<le> ?idx \<and> ?idx < int (SERVOS_PER_TIMER p))"
    by (rule channel_index_ok_nth [OF inv len])
  obtain st1 where p1: "handler_pulse_end p st timer ?idx = Inr st1"
    and s1: "servos st1 = servos st" "ServoCount st1 = ServoCount st"
      "currentServoIndex st1 = currentServoIndex st"
    and c1: "CCMP st1 = (if ?idx < 0 then 0 else CCMP st)"
    using handler_pulse_end_result [OF st, of timer ?idx] by auto
  have ok1: "state_ok p st1" using st s1 c1 by (simp add: state_ok_def)
  let ?n = "to_int8 (?idx + 1)"
  have n: "?n = ?idx + 1" using old spt by (intro to_int8_id) auto
  have n0: "0 \<le> ?n" using old n by auto
  let ?st2 = "st1\<lparr>currentServoIndex := (currentServoIndex st1)[timer := ?n]\<rparr>"
  have ok2: "state_ok p ?st2" using ok1 by (simp add: state_ok_def)
  have i2: "currentServoIndex ?st2 ! timer = ?n" using len s1 by simp
  have all: "list_all ?P (currentServoIndex st)" using inv by (simp add: channel_index_ok_def)
  have run: "ServoHandler p st timer =
      (case handler_next p ?st2 timer ?n of
         Inl e \<Rightarrow> Inl e
       | Inr st3 \<Rightarrow> Inr (st3\<lparr>calls := calls st3 @ [RegAssign INTFLAGS [TCB_CAPT_bm]]\<rparr>))"
    using len s1 by (simp add: ServoHandler_def p1 Let_def)
  show ?thesis
  proof (cases "SERVO_INDEX p (int timer) ?n < int (ServoCount ?st2) \<and> ?n < int (SERVOS_PER_TIMER p)")
    case True
    obtain st3 where h: "handler_next p ?st2 timer ?n = Inr st3"
      and s3: "servos st3 = servos ?st2" "ServoCount st3 = ServoCount ?st2"
        "currentServoIndex st3 = currentServoIndex ?st2"
      and c3: "0 \<le> CCMP st3" "CCMP st3 < 65536"
      using handler_next_within [OF ok2 n0 True] by auto
    have P: "?P ?n" using True n0 by simp
    have "list_all ?P (currentServoIndex st3)"
      unfolding s3 using list_all_update [OF all P, of timer] s1 by simp
    moreover have "state_ok p st3" using ok2 s3 c3 by (simp add: state_ok_def)
    ultimately show ?thesis
      unfolding run h by (simp add: state_ok_def channel_index_ok_def)
  next
    case False
    note h = handler_next_exhausted [OF False]
    have P: "?P (- 1)" by simp
    have "list_all ?P ((currentServoIndex st)[timer := ?n, timer := - 1])"
      using list_all_update [OF all P, of timer] by simp
    moreover have "0 \<le> to_uint16 x \<and> to_uint16 x < 65536" for x by (rule to_uint16_range)
    ultimately show ?thesis
      unfolding run h using ok2 s1 by (simp add: state_ok_def channel_index_ok_def)
  qed
qed

lemma run_handler_preserves:
  assumes spt: "SERVOS_PER_TIMER p \<le> 127"
  shows "state_ok p st \<Longrightarrow> channel_index_ok p st \<Longrightarrow> list_all (\<lambda>t. t < Nbr_16timers p) timers \<Longrightarrow>
         \<exists>st'. run_handler p st timers = Inr st' \<and> state_ok p st' \<and> channel_index_ok p st'"
proof (induction timers arbitrary: st)
  case Nil
  then show ?case by simp
next
  case (Cons t timers)
  from Cons.prems(3) have t: "t < Nbr_16timers p"
    and rest: "list_all (\<lambda>t. t < Nbr_16timers p) timers" by simp_all
  obtain st1 where h: "ServoHandler p st t = Inr st1"
    and ok: "state_ok p st1" "channel_index_ok p st1"
    using ServoHandler_preserves [OF Cons.prems(1,2) t spt] by auto
  from Cons.IH [OF ok rest] show ?case by (simp add: h)
qed

text \<open>
  C9. After every completed call of the handler the channel index of every timer is the
  sentinel -1 or a channel in \<open>0 .. SERVOS_PER_TIMER - 1\<close>, and -1 is none of these channels.
  Every handler step preserves this, so it holds after any series of interrupts that starts
  in a state where it holds, the state with every index at the sentinel among them; no call
  of the series faults. \<open>SERVOS_PER_TIMER\<close> is taken to fit the \<^verbatim>\<open>int8_t\<close> that holds the index.
\<close>

theorem channel_index_invariant:
  assumes st: "state_ok p st" and spt: "SERVOS_PER_TIMER p \<le> 127"
      and irq: "list_all (\<lambda>t. t < Nbr_16timers p) timers"
      and inv: "channel_index_ok p st"
  shows "(\<exists>st'. run_handler p st timers = Inr st' \<and> channel_index_ok p st') \<and>
         \<not> (0 \<le> (- 1 :: int) \<and> (- 1 :: int) < int (SERVOS_PER_TIMER p))"
  using run_handler_preserves [OF spt st inv irq] by auto

theorem channel_index_invariant_witness:
  "state_ok megaavr one_servo_state \<and> currentServoIndex one_servo_state = [- 1] \<and>
   channel_index_ok megaavr one_servo_state \<and>
   (\<exists>st'. run_handler megaavr one_servo_state [0, 0, 0] = Inr st' \<and>
          channel_index_ok megaavr st') \<and>
   map_sum id currentServoIndex (run_handler megaavr one_servo_state [0]) = Inr [0] \<and>
   map_sum id currentServoIndex (run_handler megaavr one_servo_state [0, 0]) = Inr [- 1]"
proof -
  have spt: "SERVOS_PER_TIMER megaavr \<le> 127" by (simp add: megaavr_def)
  have irq: "list_all (\<lambda>t. t < Nbr_16timers megaavr) [0, 0, 0]" by (simp add: megaavr_def)
  have inv: "channel_index_ok megaavr one_servo_state"
    by (simp add: channel_index_ok_def one_servo_state_def)
  have s: "currentServoIndex one_servo_state = [- 1]" by (simp add: one_servo_state_def)
  note defs = ServoHandler_def handler_pulse_end_def handler_next_def Let_def servo_at_def
    SERVO_INDEX_def to_int8_def to_uint16_def digitalWrite_def usToTicks_def c_div_def
    REFRESH_INTERVAL_def megaavr_def one_servo_state_def
  have r1: "map_sum id currentServoIndex (run_handler megaavr one_servo_state [0]) = Inr [0]"
    by (simp add: defs)
  have r2: "map_sum id currentServoIndex (run_handler megaavr one_servo_state [0, 0]) = Inr [- 1]"
    by (simp add: defs)
  show ?thesis
    using channel_index_invariant [OF megaavr_ok(1) spt irq inv] megaavr_ok(1) s inv r1 r2
    by blast
qed

section \<open>Attach, detach and the timer interrupt\<close>

lemma active_among_in_table:
  "list_all (\<lambda>i. 0 \<le> i \<and> i < int (length (servos st))) xs \<Longrightarrow>
     active_among st xs = Inr (list_ex (\<lambda>i. Pin_isActive (servos st ! nat i)) xs)"
  by (induction xs) (auto simp: servo_at_def)

lemma timer_of_index:
  assumes st: "state_ok p st" and idx: "i < MAX_SERVOS p"
  shows "i div SERVOS_PER_TIMER p < Nbr_16timers p"
proof -
  have "i < Nbr_16timers p * SERVOS_PER_TIMER p" using st idx by (simp add: state_ok_def)
  then show ?thesis by (simp add: less_mult_imp_div_less)
qed

lemma channel_in_table:
  assumes st: "state_ok p st" and t: "timer < Nbr_16timers p" and c: "ch < SERVOS_PER_TIMER p"
  shows "timer * SERVOS_PER_TIMER p + ch < length (servos st)"
proof -
  have "timer * SERVOS_PER_TIMER p + ch < (timer + 1) * SERVOS_PER_TIMER p" using c by simp
  also have "\<dots> \<le> Nbr_16timers p * SERVOS_PER_TIMER p"
    using t by (intro mult_le_mono1) simp
  finally show ?thesis using st by (simp add: state_ok_def)
qed

lemma isTimerActive_scan:
  assumes st: "state_ok p st" and t: "timer < Nbr_16timers p"
  shows "isTimerActive p st timer =
           Inr (\<exists>ch<SERVOS_PER_TIMER p. Pin_isActive (servos st ! (timer * SERVOS_PER_TIMER p + ch)))"
proof -
  let ?f = "\<lambda>channel. SERVO_INDEX p (int timer) (int channel)"
  have f: "?f ch = int (timer * SERVOS_PER_TIMER p + ch)" for ch
    by (simp add: SERVO_INDEX_def)
  have "list_all (\<lambda>i. 0 \<le> i \<and> i < int (length (servos st))) (map ?f [0 ..< SERVOS_PER_TIMER p])"
  proof -
    have "0 \<le> ?f ch \<and> ?f ch < int (length (servos st))" if "ch < SERVOS_PER_TIMER p" for ch
    proof -
      have "int (timer * SERVOS_PER_TIMER p + ch) < int (length (servos st))"
        using channel_in_table [OF st t that] by (simp only: of_nat_less_iff)
      then show ?thesis unfolding f by simp
    qed
    then show ?thesis by (simp add: list_all_iff)
  qed
  from active_among_in_table [OF this]
  have a: "isTimerActive p st timer =
      Inr (list_ex (\<lambda>i. Pin_isActive (servos st ! nat i)) (map ?f [0 ..< SERVOS_PER_TIMER p]))"
    by (simp only: isTimerActive_def)
  have n: "nat (?f ch) = timer * SERVOS_PER_TIMER p + ch" for ch
    by (simp only: f nat_int)
  have m: "list_ex (\<lambda>i. Pin_isActive (servos st ! nat i)) (map ?f xs) =
        list_ex (\<lambda>ch. Pin_isActive (servos st ! (timer * SERVOS_PER_TIMER p + ch))) xs" for xs
    by (induction xs) (simp_all add: n)
  show ?thesis unfolding a m by (auto simp: list_ex_iff)
qed

text \<open>
  C7. For an object that owns a table entry, on the timer \<open>servoIndex div SERVOS_PER_TIMER\<close>:
  \<^verbatim>\<open>attach\<close> configures the pin and then performs the register writes of \<^verbatim>\<open>initISR\<close> if and
  only if no channel of that timer was active in the state before the call; the entry is
  made active afterwards, so the scan never sees the flag this call sets. \<^verbatim>\<open>detach\<close> clears
  the active flag of the entry and then disables the interrupt (the write of 0 to \<^verbatim>\<open>INTCTRL\<close>)
  if and only if no channel of that timer is active in the state with the flag cleared.
\<close>

theorem attach_detach_timer:
  assumes st: "state_ok p st" and idx: "servoIndex this < MAX_SERVOS p"
      and tm: "timer = servoIndex this div SERVOS_PER_TIMER p"
  shows "(\<exists>st' this'. attach p st this pin mn mx = Inr (st', this', servoIndex this) \<and>
            servos st' = (servos st)[servoIndex this :=
               (servos st ! servoIndex this)\<lparr>Pin_nbr := pin, Pin_isActive := True\<rparr>] \<and>
            calls st' = calls st @ PinMode_OUTPUT pin #
               (if \<exists>ch<SERVOS_PER_TIMER p.
                     Pin_isActive (servos st ! (timer * SERVOS_PER_TIMER p + ch))
                then []
                else [RegAssign CTRLA [TCB_CLKSEL_CLKTCA_gc], RegAssign CTRLB [TCB_CNTMODE_INT_gc],
                      RegAssign INTCTRL [TCB_CAPTEI_bm], RegOr CTRLA [TCB_ENABLE_bm]])) \<and>
         (\<exists>st'. detach p st this = Inr st' \<and>
            servos st' = (servos st)[servoIndex this :=
               (servos st ! servoIndex this)\<lparr>Pin_isActive := False\<rparr>] \<and>
            calls st' = calls st @
               (if \<exists>ch<SERVOS_PER_TIMER p.
                     Pin_isActive (servos st' ! (timer * SERVOS_PER_TIMER p + ch))
                then []
                else [RegAssign INTCTRL []]))"
proof -
  let ?i = "servoIndex this"
  have t: "timer < Nbr_16timers p" unfolding tm by (rule timer_of_index [OF st idx])
  have len: "?i < length (servos st)" using st idx by (simp add: state_ok_def)
  have att: "\<exists>st' this'. attach p st this pin mn mx = Inr (st', this', ?i) \<and>
            servos st' = (servos st)[?i := (servos st ! ?i)\<lparr>Pin_nbr := pin, Pin_isActive := True\<rparr>] \<and>
            calls st' = calls st @ PinMode_OUTPUT pin #
               (if \<exists>ch<SERVOS_PER_TIMER p.
                     Pin_isActive (servos st ! (timer * SERVOS_PER_TIMER p + ch))
                then []
                else [RegAssign CTRLA [TCB_CLKSEL_CLKTCA_gc], RegAssign CTRLB [TCB_CNTMODE_INT_gc],
                      RegAssign INTCTRL [TCB_CAPTEI_bm], RegOr CTRLA [TCB_ENABLE_bm]])"
  proof -
    let ?st1 = "st\<lparr>calls := calls st @ [PinMode_OUTPUT pin]\<rparr>"
    let ?st2 = "servo_put ?st1 (int ?i) ((servos st ! ?i)\<lparr>Pin_nbr := pin\<rparr>)"
    have a1: "servo_at ?st1 (int ?i) = Inr (servos st ! ?i)" using len by (simp add: servo_at_def)
    have ok2: "state_ok p ?st2" using st by (simp add: state_ok_def servo_put_def)
    have same: "Pin_isActive (servos ?st2 ! k) = Pin_isActive (servos st ! k)" for k
      using len by (cases "k = ?i") (simp_all add: servo_put_def)
    have scan: "isTimerActive p ?st2 (?i div SERVOS_PER_TIMER p) =
        Inr (\<exists>ch<SERVOS_PER_TIMER p. Pin_isActive (servos st ! (timer * SERVOS_PER_TIMER p + ch)))"
      using isTimerActive_scan [OF ok2 t] unfolding same tm .
    show ?thesis
      unfolding attach_def Let_def if_P [OF idx] a1 sum.case scan
      using len by (simp add: servo_at_def servo_put_def initISR_def)
  qed
  have det: "\<exists>st'. detach p st this = Inr st' \<and>
            servos st' = (servos st)[?i := (servos st ! ?i)\<lparr>Pin_isActive := False\<rparr>] \<and>
            calls st' = calls st @
               (if \<exists>ch<SERVOS_PER_TIMER p.
                     Pin_isActive (servos st' ! (timer * SERVOS_PER_TIMER p + ch))
                then []
                else [RegAssign INTCTRL []])"
  proof -
    let ?st1 = "servo_put st (int ?i) ((servos st ! ?i)\<lparr>Pin_isActive := False\<rparr>)"
    have a1: "servo_at st (int ?i) = Inr (servos st ! ?i)" using len by (simp add: servo_at_def)
    have ok1: "state_ok p ?st1" by (rule state_ok_servo_put [OF st])
    have scan: "isTimerActive p ?st1 (?i div SERVOS_PER_TIMER p) =
        Inr (\<exists>ch<SERVOS_PER_TIMER p. Pin_isActive (servos ?st1 ! (timer * SERVOS_PER_TIMER p + ch)))"
      using isTimerActive_scan [OF ok1 t] unfolding tm .
    show ?thesis
      unfolding detach_def Let_def a1 sum.case scan
      by (simp add: servo_put_def finISR_def)
  qed
  show ?thesis using att det by blast
qed

theorem attach_detach_timer_witness:
  "map_sum id (\<lambda>(s, t, i). calls s) (attach megaavr boot_state first_servo 9 544 2400)
     = Inr [PinMode_OUTPUT 9, RegAssign CTRLA [TCB_CLKSEL_CLKTCA_gc],
            RegAssign CTRLB [TCB_CNTMODE_INT_gc], RegAssign INTCTRL [TCB_CAPTEI_bm],
            RegOr CTRLA [TCB_ENABLE_bm]] \<and>
   map_sum id (\<lambda>(s, t, i). calls s)
     (attach megaavr one_servo_state (first_servo\<lparr>servoIndex := 1\<rparr>) 10 544 2400)
     = Inr [PinMode_OUTPUT 10] \<and>
   map_sum id calls (detach megaavr one_servo_state first_servo) = Inr [RegAssign INTCTRL []] \<and>
   map_sum id calls (detach megaavr one_servo_state (first_servo\<lparr>servoIndex := 1\<rparr>)) = Inr []"
proof -
  have b: "state_ok megaavr boot_state" by (simp add: state_ok_def megaavr_def boot_state_def)
  have i0: "servoIndex first_servo < MAX_SERVOS megaavr"
    and i1: "servoIndex (first_servo\<lparr>servoIndex := 1\<rparr>) < MAX_SERVOS megaavr"
    by (simp_all add: first_servo_def megaavr_def)
  have t0: "0 = servoIndex first_servo div SERVOS_PER_TIMER megaavr"
    and t1: "0 = servoIndex (first_servo\<lparr>servoIndex := 1\<rparr>) div SERVOS_PER_TIMER megaavr"
    by (simp_all add: first_servo_def megaavr_def)
  have spt: "SERVOS_PER_TIMER megaavr = 12" by (simp add: megaavr_def)
  have none: "\<not> (\<exists>ch<12. Pin_isActive (servos boot_state ! (0 * 12 + ch)))"
    by (simp add: boot_state_def zero_servo_def)
  have some: "\<exists>ch<12. Pin_isActive (servos one_servo_state ! (0 * 12 + ch))"
    by (rule exI [of _ 0]) (simp add: one_servo_state_def)
  have gone: "\<not> (\<exists>ch<12. Pin_isActive
      ((servos one_servo_state)[servoIndex first_servo :=
          (servos one_servo_state ! servoIndex first_servo)\<lparr>Pin_isActive := False\<rparr>] ! (0 * 12 + ch)))"
    by (auto simp: one_servo_state_def first_servo_def zero_servo_def nth_Cons')
  have stay: "\<exists>ch<12. Pin_isActive
      ((servos one_servo_state)[servoIndex (first_servo\<lparr>servoIndex := 1\<rparr>) :=
          (servos one_servo_state ! servoIndex (first_servo\<lparr>servoIndex := 1\<rparr>))\<lparr>Pin_isActive := False\<rparr>]
        ! (0 * 12 + ch))"
    by (rule exI [of _ 0]) (simp add: one_servo_state_def)
  have c0: "calls boot_state = []" "calls one_servo_state = []"
    by (simp_all add: boot_state_def one_servo_state_def)
  have 1: "map_sum id (\<lambda>(s, t, i). calls s) (attach megaavr boot_state first_servo 9 544 2400)
     = Inr [PinMode_OUTPUT 9, RegAssign CTRLA [TCB_CLKSEL_CLKTCA_gc],
            RegAssign CTRLB [TCB_CNTMODE_INT_gc], RegAssign INTCTRL [TCB_CAPTEI_bm],
            RegOr CTRLA [TCB_ENABLE_bm]]"
    using attach_detach_timer [OF b i0 t0, of 9 544 2400] none unfolding spt
    by (auto simp: c0)
  have 2: "map_sum id (\<lambda>(s, t, i). calls s)
     (attach megaavr one_servo_state (first_servo\<lparr>servoIndex := 1\<rparr>) 10 544 2400)
     = Inr [PinMode_OUTPUT 10]"
    using attach_detach_timer [OF megaavr_ok(1) i1 t1, of 10 544 2400] some unfolding spt
    by (auto simp: c0)
  have 3: "map_sum id calls (detach megaavr one_servo_state first_servo) = Inr [RegAssign INTCTRL []]"
    using attach_detach_timer [OF megaavr_ok(1) i0 t0, of 9 544 2400] gone unfolding spt
    by (auto simp: c0)
  have 4: "map_sum id calls (detach megaavr one_servo_state (first_servo\<lparr>servoIndex := 1\<rparr>)) = Inr []"
    using attach_detach_timer [OF megaavr_ok(1) i1 t1, of 9 544 2400] stay unfolding spt
    by (auto simp: c0)
  show ?thesis using 1 2 3 4 by blast
qed

section \<open>Reading back a written angle\<close>

lemma div_upper:
  fixes y R a :: int
  assumes R: "0 < R" and y: "y < (a + 1) * R"
  shows "y div R \<le> a"
proof (rule ccontr)
  define d where "d = y div R"
  assume "\<not> y div R \<le> a"
  then have "a + 1 \<le> d" by (simp add: d_def)
  then have "(a + 1) * R \<le> d * R" using R by (intro mult_right_mono) simp_all
  moreover have "d * R + y mod R = y" unfolding d_def by (rule div_mult_mod_eq)
  moreover have "0 \<le> y mod R" using R by (rule pos_mod_sign)
  ultimately show False using y by linarith
qed

lemma div_lower:
  fixes y R a :: int
  assumes R: "0 < R" and y: "a * R \<le> y"
  shows "a \<le> y div R"
proof (rule ccontr)
  define d where "d = y div R"
  assume "\<not> a \<le> y div R"
  then have "d + 1 \<le> a" by (simp add: d_def)
  then have "(d + 1) * R \<le> a * R" using R by (intro mult_right_mono) simp_all
  moreover have "(d + 1) * R = d * R + R" by (simp add: distrib_right)
  moreover have "d * R + y mod R = y" unfolding d_def by (rule div_mult_mod_eq)
  moreover have "y mod R < R" using R by (rule pos_mod_bound)
  ultimately show False using y by linarith
qed

lemma roundtrip_degrees:
  fixes a R s :: int
  assumes a: "0 \<le> a" "a \<le> 180" and R: "836 \<le> R" and s: "36 \<le> s"
  shows "c_div ((4 * ((s + (a * R) div 180 - 5) div 4) + 6 - s) * 180) R = a \<or>
         c_div ((4 * ((s + (a * R) div 180 - 5) div 4) + 6 - s) * 180) R = a - 1"
proof -
  define q where "q = (a * R) div 180"
  define t where "t = (s + q - 5) div 4"
  define x where "x = 4 * t + 6 - s"
  have R0: "0 < R" using R by simp
  have q1: "180 * q \<le> a * R" and q2: "a * R < 180 * q + 180"
  proof -
    have "q * 180 + (a * R) mod 180 = a * R" unfolding q_def by (rule div_mult_mod_eq)
    moreover have "0 \<le> (a * R) mod 180" "(a * R) mod 180 < 180" by simp_all
    ultimately show "180 * q \<le> a * R" "a * R < 180 * q + 180" by linarith+
  qed
  have t1: "4 * t \<le> s + q - 5" and t2: "s + q - 5 < 4 * t + 4"
  proof -
    have "t * 4 + (s + q - 5) mod 4 = s + q - 5" unfolding t_def by (rule div_mult_mod_eq)
    moreover have "0 \<le> (s + q - 5) mod 4" "(s + q - 5) mod 4 < 4" by simp_all
    ultimately show "4 * t \<le> s + q - 5" "s + q - 5 < 4 * t + 4" by linarith+
  qed
  have x1: "q - 2 \<le> x" and x2: "x \<le> q + 1" using t1 t2 by (simp_all add: x_def)
  have up: "x * 180 < (a + 1) * R"
  proof -
    have "x * 180 \<le> 180 * q + 180" using x2 by simp
    also have "\<dots> \<le> a * R + 180" using q1 by simp
    also have "\<dots> < a * R + R" using R by simp
    finally show ?thesis by (simp add: algebra_simps)
  qed
  have lo: "(a - 1) * R \<le> x * 180"
  proof -
    have "(a - 1) * R = a * R - R" by (simp add: algebra_simps)
    also have "\<dots> \<le> a * R - 540" using R by simp
    also have "\<dots> \<le> 180 * q - 360" using q2 by simp
    also have "\<dots> \<le> x * 180" using x1 by simp
    finally show ?thesis .
  qed
  have res: "c_div (x * 180) R = a \<or> c_div (x * 180) R = a - 1"
  proof (cases "x < 0")
    case True
    then have "q < 2" using x1 by simp
    then have "a * R < 540" using q2 by simp
    have a0: "a = 0"
    proof (rule ccontr)
      assume "a \<noteq> 0"
      then have "1 \<le> a" using a by simp
      then have "1 * R \<le> a * R" using R0 by (intro mult_right_mono) simp_all
      then have "R \<le> a * R" by (simp only: mult_1)
      then show False using \<open>a * R < 540\<close> R by linarith
    qed
    have "- 2 \<le> x" using x1 q2 a0 by simp
    then have "\<bar>x * 180\<bar> \<le> 360" using True by simp
    then have "\<bar>x * 180\<bar> div R = 0" using R by (intro div_pos_pos_trivial) simp_all
    then show ?thesis using True R0 a0 by (simp add: c_div_def)
  next
    case False
    then have "c_div (x * 180) R = (x * 180) div R" using R0 by (simp add: c_div_def)
    moreover have "(x * 180) div R \<le> a" by (rule div_upper [OF R0 up])
    moreover have "a - 1 \<le> (x * 180) div R" by (rule div_lower [OF R0 lo])
    ultimately show ?thesis by linarith
  qed
  then show ?thesis unfolding x_def t_def q_def .
qed

lemma read_after_ticks:
  assumes ok: "object_ok p this" and inv: "servoIndex this \<noteq> INVALID_SERVO p"
      and len: "servoIndex this < length (servos st)"
      and cpu: "clockCyclesPerMicrosecond p = 16"
      and T: "0 \<le> ticks (servos st ! servoIndex this)" "ticks (servos st ! servoIndex this) \<le> 726"
  shows "read p st this =
           Inr (to_int16 (c_div ((4 * ticks (servos st ! servoIndex this) + 6 - SERVO_MIN this) * 180)
                            (SERVO_MAX this - SERVO_MIN this)))"
proof -
  let ?T = "ticks (servos st ! servoIndex this)"
  have a: "servo_at st (int (servoIndex this)) = Inr (servos st ! servoIndex this)"
    using len by (simp add: servo_at_def)
  have u: "to_uint16 (to_uint16 ?T * 16) = ?T * 16" using T by (simp add: to_uint16_def)
  have t: "ticksToUs p ?T = 4 * ?T" using T by (simp add: ticksToUs_def u cpu c_div_def)
  have r: "readMicroseconds p st this = Inr (4 * ?T + 5)"
    using inv T by (simp add: readMicroseconds_def a t TRIM_DURATION_def to_uint16_def to_int16_def)
  have i: "to_int16 (4 * ?T + 5 + 1) = 4 * ?T + 6" using T by (simp add: to_int16_def)
  show ?thesis unfolding read_def r sum.case i by (simp add: map_c_def)
qed

text \<open>
  On a clock of 16 cycles per microsecond, for an object that owns a table entry and every
  angle \<open>a\<close> from 0 to 180, \<^verbatim>\<open>write(a)\<close> followed by \<^verbatim>\<open>read()\<close> returns \<open>a\<close> or \<open>a - 1\<close>: the loss
  of at most one degree is the rounding of the two integer maps and of the tick conversion,
  which keeps a quarter of the microseconds.
\<close>

lemma read_after_write_16MHz:
  assumes st: "state_ok p st" and ok: "object_ok p this"
      and cpu: "clockCyclesPerMicrosecond p = 16"
      and a: "0 \<le> a" "a \<le> 180"
  shows "\<exists>st' r. write_value p st this a = Inr st' \<and> read p st' this = Inr r \<and>
           (r = a \<or> r = a - 1)"
proof -
  let ?i = "servoIndex this"
  let ?s = "SERVO_MIN this"
  let ?R = "SERVO_MAX this - SERVO_MIN this"
  let ?T = "(?s + (a * ?R) div 180 - 5) div 4"
  have c: "0 \<le> clockCyclesPerMicrosecond p" "clockCyclesPerMicrosecond p < 736"
    using cpu by simp_all
  have v: "is_int16 a" using a by (simp add: is_int16_def)
  have s: "36 \<le> ?s" "?s \<le> 1056" using SERVO_MIN_range [OF ok] by simp_all
  have R: "836 \<le> ?R" using SERVO_MIN_range [OF ok] SERVO_MAX_range [OF ok] by linarith
  have rq: "requested_us this a = angle_to_us this a"
    using a by (simp add: requested_us_def clamp_def)
  have m: "?s \<le> angle_to_us this a" "angle_to_us this a \<le> SERVO_MAX this"
    using angle_to_us_range [OF ok a] by simp_all
  have cl: "clamp ?s (SERVO_MAX this) (angle_to_us this a) = ?s + (a * ?R) div 180"
    using m by (simp add: clamp_def angle_to_us_def)
  let ?e = "(servos st ! ?i)\<lparr>svalue := requested_us this a, ticks := ?T\<rparr>"
  let ?st' = "st\<lparr>servos := (servos st)[?i := ?e]\<rparr>"
  have w: "write_value p st this a = Inr ?st'"
    unfolding write_value_valid [OF st ok v c] writeMicroseconds_valid [OF st ok c]
    by (simp add: rq cl cpu)
  have len: "?i < length (servos ?st')" using channel_valid(3) [OF st ok] by simp
  have tk: "ticks (servos ?st' ! ?i) = ?T" using channel_valid(3) [OF st ok] by simp
  have inv: "?i \<noteq> INVALID_SERVO p" using st ok by (simp add: state_ok_def object_ok_def)
  have mm: "36 \<le> ?s + (a * ?R) div 180" "?s + (a * ?R) div 180 \<le> 2912"
    using m s SERVO_MAX_range [OF ok] by (simp_all add: angle_to_us_def)
  have T: "0 \<le> ?T" "?T \<le> 726" using mm by simp_all
  have rd: "read p ?st' this = Inr (to_int16 (c_div ((4 * ?T + 6 - ?s) * 180) ?R))"
    using read_after_ticks [OF ok inv len cpu] T unfolding tk by simp
  note d = roundtrip_degrees [OF a R s(1)]
  have "to_int16 (c_div ((4 * ?T + 6 - ?s) * 180) ?R) = c_div ((4 * ?T + 6 - ?s) * 180) ?R"
    using d a by (intro to_int16_id) (auto simp: is_int16_def)
  then show ?thesis using w rd d by auto
qed

text \<open>
  C6. The claim is that \<^verbatim>\<open>read()\<close> after \<^verbatim>\<open>write(a)\<close> returns \<open>a\<close> up to integer rounding, for
  every attached servo and every angle from 0 to 180. That needs \<^verbatim>\<open>ticksToUs\<close> to undo
  \<^verbatim>\<open>usToTicks\<close>, as its comment says it does. Both macros take the clock from
  \<^verbatim>\<open>clockCyclesPerMicrosecond()\<close>, but \<^verbatim>\<open>usToTicks\<close> divides the clock by 16 before it multiplies,
  so on a 20 MHz board it converts as for 16 MHz, while \<^verbatim>\<open>ticksToUs\<close> divides by a quarter of
  the clock, which is 5. There \<^verbatim>\<open>write(90)\<close> stores 366 ticks, \<^verbatim>\<open>readMicroseconds()\<close> reports 1176
  for the 1472 written, and \<^verbatim>\<open>read()\<close> returns 61. On the 16 MHz board the same calls give 366,
  1469 and 89.
\<close>

theorem read_after_write_20MHz:
  "state_ok megaavr_20MHz one_servo_state \<and> object_ok megaavr_20MHz first_servo \<and>
   (case write_value megaavr_20MHz one_servo_state first_servo 90 of
      Inl e \<Rightarrow> Inl e
    | Inr s \<Rightarrow>
        (case readMicroseconds megaavr_20MHz s first_servo of
           Inl e \<Rightarrow> Inl e
         | Inr us \<Rightarrow>
             map_sum id (\<lambda>r. (svalue (servos s ! 0), ticks (servos s ! 0), us, r))
               (read megaavr_20MHz s first_servo)))
     = Inr (1472, 366, 1176, 61) \<and>
   (case write_value megaavr one_servo_state first_servo 90 of
      Inl e \<Rightarrow> Inl e
    | Inr s \<Rightarrow>
        (case readMicroseconds megaavr s first_servo of
           Inl e \<Rightarrow> Inl e
         | Inr us \<Rightarrow>
             map_sum id (\<lambda>r. (svalue (servos s ! 0), ticks (servos s ! 0), us, r))
               (read megaavr s first_servo)))
     = Inr (1472, 366, 1469, 89)"
  by code_simp

section \<open>Sequence playback: stopping and wrapping\<close>

lemma read_returns:
  assumes st: "state_ok p st" and idx: "servoIndex this < MAX_SERVOS p"
  shows "\<exists>r. read p st this = Inr r"
proof -
  have "servoIndex this < length (servos st)" using st idx by (simp add: state_ok_def)
  then show ?thesis by (simp add: read_def readMicroseconds_def servo_at_def)
qed

lemma writeMicroseconds_returns:
  assumes st: "state_ok p st" and idx: "servoIndex this < MAX_SERVOS p"
  shows "\<exists>st'. writeMicroseconds p st this v = Inr st'"
proof -
  have len: "servoIndex this < length (servos st)" and b: "MAX_SERVOS p \<le> 255"
    using st idx by (simp_all add: state_ok_def)
  have c: "to_uint8 (servoIndex this) = servoIndex this" using idx b by (simp add: to_uint8_def)
  show ?thesis using len by (simp add: writeMicroseconds_def Let_def c servo_at_def servo_put_def)
qed

lemma write_speed_returns:
  assumes st: "state_ok p st" and idx: "servoIndex this < MAX_SERVOS p"
  shows "\<exists>st'. write_speed p st this v spd = Inr st'"
proof -
  have len: "servoIndex this < length (servos st)" and b: "MAX_SERVOS p \<le> 255"
    using st idx by (simp_all add: state_ok_def)
  have c: "to_uint8 (servoIndex this) = servoIndex this" using idx b by (simp add: to_uint8_def)
  let ?st1 = "servo_put st (int (servoIndex this)) ((servos st ! servoIndex this)\<lparr>svalue := v\<rparr>)"
  have st1: "state_ok p ?st1" by (rule state_ok_servo_put [OF st])
  have w: "\<exists>st'. write_value p ?st1 this v = Inr st'"
    using writeMicroseconds_returns [OF st1 idx] by (simp add: write_value_def Let_def)
  show ?thesis
  proof (cases "spd = 0")
    case True
    then show ?thesis using len w by (simp add: write_speed_def Let_def c servo_at_def)
  next
    case False
    then show ?thesis using len by (simp add: write_speed_def Let_def c servo_at_def servo_put_def)
  qed
qed

lemma sequencePlay_steps:
  assumes this1: "this1 = (if curSequence this \<noteq> seq_addr sq
                           then this\<lparr>curSequence := seq_addr sq, curSeqPosition := start\<rparr>
                           else this)"
      and old: "old = (if curSequence this \<noteq> seq_addr sq then 255 else curSeqPosition this)"
      and r: "read p st this1 = Inr r"
      and this2: "this2 =
          (if r = int (position (seq_cell sq (curSeqPosition this1))) \<and>
              curSeqPosition this1 \<noteq> CURRENT_SEQUENCE_STOP p then
             (let c = to_uint8 (curSeqPosition this1 + 1) in
              if c \<ge> n then
                (if loop then this1\<lparr>curSeqPosition := 0\<rparr>
                 else this1\<lparr>curSeqPosition := CURRENT_SEQUENCE_STOP p\<rparr>)
              else this1\<lparr>curSeqPosition := c\<rparr>)
           else this1)"
  shows "sequencePlay p st this sq n loop start =
           (if curSeqPosition this2 \<noteq> old \<and> curSeqPosition this2 \<noteq> CURRENT_SEQUENCE_STOP p then
              (case write_speed p st this2 (int (position (seq_cell sq (curSeqPosition this2))))
                      (wp_speed (seq_cell sq (curSeqPosition this2))) of
                 Inl e \<Rightarrow> Inl e
               | Inr st1 \<Rightarrow> Inr (st1, this2, curSeqPosition this2,
                               [curSeqPosition this1, curSeqPosition this2, curSeqPosition this2]))
            else Inr (st, this2, curSeqPosition this2, [curSeqPosition this1]))"
  unfolding sequencePlay_def Let_def this1 [symmetric] old [symmetric]
  unfolding r sum.case
  unfolding this2 [unfolded Let_def, symmetric]
  by (rule refl)

lemma sequencePlay_stopped:
  assumes st: "state_ok p st" and idx: "servoIndex this < MAX_SERVOS p"
      and same: "curSequence this = seq_addr sq"
      and stop: "curSeqPosition this = CURRENT_SEQUENCE_STOP p"
  shows "sequencePlay p st this sq n loop start
           = Inr (st, this, CURRENT_SEQUENCE_STOP p, [CURRENT_SEQUENCE_STOP p])"
proof -
  obtain r where r: "read p st this = Inr r" using read_returns [OF st idx] by auto
  show ?thesis
    using sequencePlay_steps [of this this sq start "curSeqPosition this" p st r this n loop]
      same stop r
    by simp
qed





lemma moved_state_ok: "state_ok megaavr moved_state"
  by (simp add: state_ok_def megaavr_def moved_state_def)



section \<open>Reads of the waypoint array\<close>

theorem sequence_reads_past_count:
  "\<not> reads_below 2 (sequencePlay megaavr one_servo_state first_servo two_waypoints 2 False 5) \<and>
   \<not> reads_below 2 (sequencePlay megaavr moved_state (playing_servo\<lparr>curSeqPosition := 255\<rparr>)
                      two_waypoints 2 False 0)"
proof -
  let ?stopped = "playing_servo\<lparr>curSeqPosition := 255\<rparr>"
  let ?t = "first_servo\<lparr>curSequence := 1, curSeqPosition := 5\<rparr>"
  have idx: "servoIndex ?t < MAX_SERVOS megaavr" by (simp add: first_servo_def megaavr_def)
  have t1: "?t = (if curSequence first_servo \<noteq> seq_addr two_waypoints
                   then first_servo\<lparr>curSequence := seq_addr two_waypoints, curSeqPosition := 5\<rparr>
                   else first_servo)"
    by (simp add: first_servo_def two_waypoints_def)
  have old: "(255::nat) = (if curSequence first_servo \<noteq> seq_addr two_waypoints then 255
                            else curSeqPosition first_servo)"
    by (simp add: first_servo_def two_waypoints_def)
  have r: "read megaavr one_servo_state ?t = Inr 93"
    by (simp add: read_def readMicroseconds_def servo_at_def ticksToUs_def to_uint16_def
        to_int16_def c_div_def map_c_def SERVO_MIN_def SERVO_MAX_def MIN_PULSE_WIDTH_def
        MAX_PULSE_WIDTH_def TRIM_DURATION_def megaavr_def one_servo_state_def first_servo_def)
  have t2: "?t = (if 93 = int (position (seq_cell two_waypoints (curSeqPosition ?t))) \<and>
              curSeqPosition ?t \<noteq> CURRENT_SEQUENCE_STOP megaavr then
             (let c = to_uint8 (curSeqPosition ?t + 1) in
              if c \<ge> 2 then
                (if False then ?t\<lparr>curSeqPosition := 0\<rparr>
                 else ?t\<lparr>curSeqPosition := CURRENT_SEQUENCE_STOP megaavr\<rparr>)
              else ?t\<lparr>curSeqPosition := c\<rparr>)
           else ?t)"
    by (simp add: two_waypoints_def)
  obtain st' where w: "write_speed megaavr one_servo_state ?t
      (int (position (seq_cell two_waypoints (curSeqPosition ?t))))
      (wp_speed (seq_cell two_waypoints (curSeqPosition ?t))) = Inr st'"
    using write_speed_returns [OF megaavr_ok(1) idx] by blast
  have a: "reads_of (sequencePlay megaavr one_servo_state first_servo two_waypoints 2 False 5)
      = [5, 5, 5]"
    unfolding sequencePlay_steps [OF t1 old r t2] w
    by (simp add: reads_of_def megaavr_def)
  have idx': "servoIndex ?stopped < MAX_SERVOS megaavr" by (simp add: playing_servo_def megaavr_def)
  have same': "curSequence ?stopped = seq_addr two_waypoints"
    by (simp add: playing_servo_def two_waypoints_def)
  have stop': "curSeqPosition ?stopped = CURRENT_SEQUENCE_STOP megaavr" by (simp add: megaavr_def)
  have b: "reads_of (sequencePlay megaavr moved_state ?stopped two_waypoints 2 False 0) = [255]"
    unfolding sequencePlay_stopped [OF moved_state_ok idx' same' stop']
    by (simp add: reads_of_def megaavr_def)
  show ?thesis unfolding reads_below_def a b by simp
qed

text \<open>
  C10, as amended. The claim is that \<^verbatim>\<open>sequencePlay\<close> reads \<^verbatim>\<open>sequenceIn\<close> only below
  \<^verbatim>\<open>numPositions\<close>. The function does not check the start position, and it reads the entry at
  the index it starts from before it tests anything: with two waypoints and start position 5
  it reads index 5 (the theorem above). What holds: for an object that owns a table entry, if
  the index the call starts from (the start position when the array is new to the object, the
  current waypoint index otherwise) is below \<^verbatim>\<open>numPositions\<close>, the call returns and every index
  at which it read \<^verbatim>\<open>sequenceIn\<close> is below \<^verbatim>\<open>numPositions\<close>.
\<close>

theorem sequence_reads_below_count:
  assumes st: "state_ok p st" and idx: "servoIndex this < MAX_SERVOS p"
      and eff: "(if curSequence this \<noteq> seq_addr sq then start else curSeqPosition this) < n"
  shows "(\<exists>x. sequencePlay p st this sq n loop start = Inr x) \<and>
         reads_below n (sequencePlay p st this sq n loop start)"
proof -
  define this1 where "this1 = (if curSequence this \<noteq> seq_addr sq
                           then this\<lparr>curSequence := seq_addr sq, curSeqPosition := start\<rparr>
                           else this)"
  define old :: nat where "old = (if curSequence this \<noteq> seq_addr sq then 255 else curSeqPosition this)"
  have i1: "servoIndex this1 < MAX_SERVOS p" using idx by (simp add: this1_def)
  have c1: "curSeqPosition this1 < n" using eff by (auto simp: this1_def split: if_splits)
  obtain r where r: "read p st this1 = Inr r" using read_returns [OF st i1] by auto
  define this2 where "this2 =
          (if r = int (position (seq_cell sq (curSeqPosition this1))) \<and>
              curSeqPosition this1 \<noteq> CURRENT_SEQUENCE_STOP p then
             (let c = to_uint8 (curSeqPosition this1 + 1) in
              if c \<ge> n then
                (if loop then this1\<lparr>curSeqPosition := 0\<rparr>
                 else this1\<lparr>curSeqPosition := CURRENT_SEQUENCE_STOP p\<rparr>)
              else this1\<lparr>curSeqPosition := c\<rparr>)
           else this1)"
  have i2: "servoIndex this2 < MAX_SERVOS p" using i1 by (simp add: this2_def Let_def)
  have c2: "curSeqPosition this2 < n \<or> curSeqPosition this2 = CURRENT_SEQUENCE_STOP p"
    using c1 by (auto simp: this2_def Let_def)
  obtain st' where w: "write_speed p st this2 (int (position (seq_cell sq (curSeqPosition this2))))
      (wp_speed (seq_cell sq (curSeqPosition this2))) = Inr st'"
    using write_speed_returns [OF st i2] by blast
  show ?thesis
    unfolding sequencePlay_steps [OF this1_def old_def r this2_def] w
    using c1 c2 by (auto simp: reads_below_def reads_of_def)
qed

theorem sequence_reads_below_count_witness:
  "reads_of (sequencePlay megaavr one_servo_state first_servo two_waypoints 2 False 0) \<noteq> [] \<and>
   reads_below 2 (sequencePlay megaavr one_servo_state first_servo two_waypoints 2 False 0)"
proof -
  have idx: "servoIndex first_servo < MAX_SERVOS megaavr" by (simp add: first_servo_def megaavr_def)
  have eff: "(if curSequence first_servo \<noteq> seq_addr two_waypoints then 0
               else curSeqPosition first_servo) < 2"
    by (simp add: first_servo_def two_waypoints_def)
  note t = sequence_reads_below_count [OF megaavr_ok(1) idx eff, of False]
  obtain x where x: "sequencePlay megaavr one_servo_state first_servo two_waypoints 2 False 0 = Inr x"
    using t by blast
  have "reads_of (Inr x) \<noteq> []"
    using x by (cases x) (auto simp: sequencePlay_def Let_def reads_of_def split: sum.splits if_splits)
  then show ?thesis using t x by simp
qed

end
